theory Spec2Isabelle
  imports Complex_Main "HOL-Library.Multiset" "HOL-Library.Char_ord" "HOL-Library.List_Lexorder"
begin

section \<open>Bulk insert and bulk delete of the Cassandra binding\<close>

text \<open>
  The theory embeds the bulk operations of \<^verbatim>\<open>src/bindings/databases/cassandra_db.py\<close>:
  \<^verbatim>\<open>batch_insert_dicts_to_cassandra\<close> with its worker \<^verbatim>\<open>execute_table_batch\<close>,
  \<^verbatim>\<open>delete_all_rows_batch_multiple\<close> with \<^verbatim>\<open>process_table\<close> and its worker
  \<^verbatim>\<open>execute_delete_batch\<close>, and the counting loop of \<^verbatim>\<open>delete_all_rows\<close>.

  Conventions.
  \<^item> Python's \<^verbatim>\<open>int\<close> parameters (\<^verbatim>\<open>batch_size\<close>, \<^verbatim>\<open>concurrency\<close>, \<^verbatim>\<open>max_retries\<close>) are
    \<^typ>\<open>int\<close>; lengths and counters are \<^typ>\<open>nat\<close>; \<^verbatim>\<open>retry_delay\<close>, the elapsed time and
    the two rates are \<^typ>\<open>real\<close> (the floats are read as the reals they denote).
  \<^item> A raised exception is the \<open>Inl\<close> of a sum, carrying the text of the exception.
  \<^item> The database driver is outside the repository. It enters as a function that says,
    for the request made by a given batch on a given attempt, whether the request raises
    (\<open>Some\<close> of the exception text) or returns (\<open>None\<close>). Every request of a run has its
    own batch number and attempt, so any behaviour of the driver is such a function.
  \<^item> \<^verbatim>\<open>time.sleep\<close> is outside the repository as well (it raises for a negative delay and
    for one the clock cannot hold). It enters as a function that says, for a delay,
    whether the sleep raises or returns.
  \<^item> What a worker does to the outside (statements sent, sleeps, log lines of interest) is
    returned as a list of effects, in the order the worker performs them.
  \<^item> \<^verbatim>\<open>as_completed\<close> yields the futures in the order they finish. The order enters as a
    function that rearranges the submitted list; theorems assume only that it is a
    rearrangement.
  \<^item> Log lines are kept where a property speaks of them and left out otherwise.
\<close>

subsection \<open>Statements, effects and messages\<close>

type_synonym 'v py_dict = "(string \<times> 'v) list"

datatype ('v, 'r) statement =
    InsertBatch string "string list" "'v list list"
  | DeleteBatch string "'r list"

text \<open>
  The requests a worker makes of the driver on the way to one grouped statement:
  \<open>Prepare t columns\<close> is \<^verbatim>\<open>get_prepared_statement(t, columns)\<close>, which calls
  \<^verbatim>\<open>session.prepare\<close> for a statement not yet cached; \<open>AddInsert t columns values\<close> is
  \<^verbatim>\<open>batch_stmt.add\<close> of the values of one record to the INSERT of these columns;
  \<open>AddDelete t row\<close> is the reading of the key of one row and its \<^verbatim>\<open>batch_stmt.add\<close> to the
  DELETE of the table; \<open>Run stmt\<close> is \<^verbatim>\<open>session.execute(batch_stmt)\<close>.
\<close>

datatype ('v, 'r) request =
    Prepare string "string list"
  | AddInsert string "string list" "'v list"
  | AddDelete string 'r
  | Run "('v, 'r) statement"

datatype 'n batch_error = BatchError string 'n nat string

text \<open>
  \<open>Execute stmt\<close>: \<^verbatim>\<open>session.execute\<close> was called with the statement. \<open>Sleep secs\<close>: a sleep
  of \<open>secs\<close> seconds returned.
\<close>

datatype ('v, 'r, 'n) effect =
    Execute "('v, 'r) statement"
  | Sleep real
  | LogError "'n batch_error"
  | LogWarning string

subsection \<open>Python's \<^verbatim>\<open>range(0, stop, step)\<close> and slicing\<close>

definition range_step :: "nat \<Rightarrow> nat \<Rightarrow> nat list" where
  "range_step stop step = filter (\<lambda>i. i mod step = 0) [0..<stop]"

definition slice :: "'a list \<Rightarrow> nat \<Rightarrow> nat \<Rightarrow> 'a list" where
  "slice xs i n = take n (drop i xs)"

text \<open>
  The loop \<^verbatim>\<open>for i in range(0, len(xs), step): xs[i:i + step]\<close>, with the chunk number
  \<^verbatim>\<open>i // step + 1\<close>. A zero step makes \<^verbatim>\<open>range\<close> raise ValueError; a negative step gives
  the empty range.
\<close>

definition chunks :: "int \<Rightarrow> 'a list \<Rightarrow> string + ('a list \<times> nat) list" where
  "chunks step xs =
     (if step = 0 then Inl ''ValueError: range() arg 3 must not be zero''
      else if step < 0 then Inr []
      else Inr (map (\<lambda>i. (slice xs i (nat step), i div nat step + 1))
                    (range_step (length xs) (nat step))))"

definition batches_of :: "nat \<Rightarrow> 'a list \<Rightarrow> 'a list list" where
  "batches_of n xs = map (\<lambda>i. slice xs i n) (range_step (length xs) n)"

subsection \<open>Dictionaries\<close>

text \<open>
  A Python dict keeps its keys in the order of their first insertion. \<open>dict_update k f d\<close>
  stores \<open>f\<close> of the present value under \<open>k\<close> (\<open>f None\<close> when \<open>k\<close> is new, at the end).
  \<open>list_append\<close> is \<^verbatim>\<open>d[k].append(x)\<close> on a \<^verbatim>\<open>defaultdict(list)\<close>, \<open>dict_set\<close> is
  \<^verbatim>\<open>d[k] = v\<close>.
\<close>

fun dict_update :: "'k \<Rightarrow> ('a option \<Rightarrow> 'a) \<Rightarrow> ('k \<times> 'a) list \<Rightarrow> ('k \<times> 'a) list" where
  "dict_update k f [] = [(k, f None)]"
| "dict_update k f ((k', v) # d) =
     (if k = k' then (k', f (Some v)) # d else (k', v) # dict_update k f d)"

definition list_append :: "'k \<Rightarrow> 'a \<Rightarrow> ('k \<times> 'a list) list \<Rightarrow> ('k \<times> 'a list) list" where
  "list_append k x d = dict_update k (\<lambda>old. case old of None \<Rightarrow> [x] | Some xs \<Rightarrow> xs @ [x]) d"

definition dict_set :: "'k \<Rightarrow> 'a \<Rightarrow> ('k \<times> 'a) list \<Rightarrow> ('k \<times> 'a) list" where
  "dict_set k v d = dict_update k (\<lambda>old. v) d"

text \<open>The grouping loop \<^verbatim>\<open>for x in xs: d[key(x)].append(val(x))\<close> on a \<^verbatim>\<open>defaultdict(list)\<close>.\<close>

definition group_by ::
  "('a \<Rightarrow> 'k) \<Rightarrow> ('a \<Rightarrow> 'b) \<Rightarrow> 'a list \<Rightarrow> ('k \<times> 'b list) list \<Rightarrow> ('k \<times> 'b list) list" where
  "group_by key val xs d = foldl (\<lambda>d x. list_append (key x) (val x) d) d xs"

subsection \<open>The worker pool\<close>

text \<open>
  \<^verbatim>\<open>ThreadPoolExecutor(max_workers=n)\<close> of Python's \<^verbatim>\<open>concurrent.futures\<close> raises ValueError
  in its constructor when \<open>n \<le> 0\<close>.
\<close>

definition thread_pool :: "int \<Rightarrow> string option" where
  "thread_pool max_workers =
     (if max_workers \<le> 0 then Some ''ValueError: max_workers must be greater than 0'' else None)"

subsection \<open>The insert worker \<^verbatim>\<open>execute_table_batch\<close>\<close>

definition columns_key :: "'v py_dict \<Rightarrow> string list" where
  "columns_key record = sort (map fst record)"

definition group_by_columns :: "'v py_dict list \<Rightarrow> (string list \<times> 'v py_dict list) list" where
  "group_by_columns batch_data = group_by columns_key (\<lambda>record. record) batch_data []"

definition values_of :: "string list \<Rightarrow> 'v py_dict \<Rightarrow> 'v list option" where
  "values_of columns record = those (map (map_of record) columns)"

text \<open>
  The loop that fills the batch of a group: the values of each record, in the order of the
  columns (a record without one of them raises KeyError), are added to the batch.
\<close>

fun fill_batch ::
  "(('v, 'r) request \<Rightarrow> string option) \<Rightarrow> string \<Rightarrow> string list \<Rightarrow> 'v py_dict list
     \<Rightarrow> string + 'v list list" where
  "fill_batch ex table_name columns [] = Inr []"
| "fill_batch ex table_name columns (record # group_records) =
     (case values_of columns record of
        None \<Rightarrow> Inl ''KeyError''
      | Some values \<Rightarrow>
          (case ex (AddInsert table_name columns values) of
             Some e \<Rightarrow> Inl e
           | None \<Rightarrow>
               (case fill_batch ex table_name columns group_records of
                  Inl e \<Rightarrow> Inl e
                | Inr rows \<Rightarrow> Inr (values # rows))))"

text \<open>The grouped write of a column group whose records all have the columns of the key.\<close>

definition insert_statement ::
  "string \<Rightarrow> string list \<times> 'v py_dict list \<Rightarrow> ('v, 'r) statement" where
  "insert_statement table_name g =
     InsertBatch table_name (fst g)
       (map (\<lambda>record. map (\<lambda>col. the (map_of record col)) (fst g)) (snd g))"

text \<open>
  The body of one attempt: for each column group in turn the statement is prepared, the
  batch is filled with the values of the group's records and executed; the first exception
  ends the attempt.
\<close>

fun execute_groups ::
  "(('v, 'r) request \<Rightarrow> string option) \<Rightarrow> string \<Rightarrow> (string list \<times> 'v py_dict list) list
     \<Rightarrow> string option \<times> ('v, 'r, nat) effect list" where
  "execute_groups ex table_name [] = (None, [])"
| "execute_groups ex table_name ((columns, group_records) # groups) =
     (case ex (Prepare table_name columns) of
        Some e \<Rightarrow> (Some e, [])
      | None \<Rightarrow>
          (case fill_batch ex table_name columns group_records of
             Inl e \<Rightarrow> (Some e, [])
           | Inr rows \<Rightarrow>
               (case ex (Run (InsertBatch table_name columns rows)) of
                  Some e \<Rightarrow> (Some e, [Execute (InsertBatch table_name columns rows)])
                | None \<Rightarrow>
                    (case execute_groups ex table_name groups of
                       (r, tr) \<Rightarrow> (r, Execute (InsertBatch table_name columns rows) # tr)))))"

text \<open>
  The local variables of the worker and what it did to the outside. The worker returns
  the three locals when \<open>raised\<close> is \<open>None\<close>; otherwise it raised the exception named, which
  only the sleep between two attempts can do, inside the handler of the failed attempt.
\<close>

record ('v, 'r) batch_result =
  local_successful :: nat
  local_failed :: nat
  local_errors :: "nat batch_error list"
  effects :: "('v, 'r, nat) effect list"
  raised :: "string option"

type_synonym ('v, 'r) insert_session = "string \<Rightarrow> nat \<Rightarrow> nat \<Rightarrow> ('v, 'r) request \<Rightarrow> string option"

fun insert_attempts ::
  "(real \<Rightarrow> string option) \<Rightarrow> ('v, 'r) insert_session \<Rightarrow> real \<Rightarrow> int \<Rightarrow> string
     \<Rightarrow> 'v py_dict list \<Rightarrow> nat \<Rightarrow> nat list
     \<Rightarrow> ('v, 'r) batch_result \<Rightarrow> ('v, 'r) batch_result" where
  "insert_attempts sleep session retry_delay max_retries table_name batch_data batch_num [] st = st"
| "insert_attempts sleep session retry_delay max_retries table_name batch_data batch_num (attempt # rest) st =
     (case execute_groups (session table_name batch_num attempt) table_name (group_by_columns batch_data) of
        (None, tr) \<Rightarrow>
          st\<lparr>local_successful := length batch_data, effects := effects st @ tr\<rparr>
      | (Some e, tr) \<Rightarrow>
          (let st1 = st\<lparr>local_errors := local_errors st @ [BatchError table_name batch_num (attempt + 1) e],
                         effects := effects st @ tr\<rparr>
           in if int attempt = max_retries - 1
              then insert_attempts sleep session retry_delay max_retries table_name batch_data batch_num rest
                     (st1\<lparr>local_failed := length batch_data\<rparr>)
              else
                (case sleep (retry_delay * real (attempt + 1)) of
                   Some err \<Rightarrow> st1\<lparr>raised := Some err\<rparr>
                 | None \<Rightarrow>
                     insert_attempts sleep session retry_delay max_retries table_name batch_data batch_num rest
                       (st1\<lparr>effects := effects st1 @ [Sleep (retry_delay * real (attempt + 1))]\<rparr>))))"

definition execute_table_batch ::
  "(real \<Rightarrow> string option) \<Rightarrow> ('v, 'r) insert_session \<Rightarrow> real \<Rightarrow> int \<Rightarrow> string
     \<Rightarrow> 'v py_dict list \<Rightarrow> nat \<Rightarrow> ('v, 'r) batch_result" where
  "execute_table_batch sleep session retry_delay max_retries table_name batch_data batch_num =
     insert_attempts sleep session retry_delay max_retries table_name batch_data batch_num
       [0..<nat max_retries]
       \<lparr>local_successful = 0, local_failed = 0, local_errors = [], effects = [], raised = None\<rparr>"

subsection \<open>The delete worker \<^verbatim>\<open>execute_delete_batch\<close>\<close>

type_synonym delete_batch_num = "string \<times> nat \<times> nat"

type_synonym ('v, 'r) delete_session = "delete_batch_num \<Rightarrow> nat \<Rightarrow> ('v, 'r) request \<Rightarrow> string option"

text \<open>
  The body of one attempt: the batch is filled with the key values of the rows, row by row
  (the DELETE was prepared before the workers started), and executed.
\<close>

fun fill_delete :: "(('v, 'r) request \<Rightarrow> string option) \<Rightarrow> string \<Rightarrow> 'r list \<Rightarrow> string option" where
  "fill_delete ex table_name [] = None"
| "fill_delete ex table_name (row # rows) =
     (case ex (AddDelete table_name row) of
        Some e \<Rightarrow> Some e
      | None \<Rightarrow> fill_delete ex table_name rows)"

definition delete_attempt ::
  "(('v, 'r) request \<Rightarrow> string option) \<Rightarrow> string \<Rightarrow> 'r list
     \<Rightarrow> string option \<times> ('v, 'r, delete_batch_num) effect list" where
  "delete_attempt ex table_name rows_batch =
     (case fill_delete ex table_name rows_batch of
        Some e \<Rightarrow> (Some e, [])
      | None \<Rightarrow> (ex (Run (DeleteBatch table_name rows_batch)), [Execute (DeleteBatch table_name rows_batch)]))"

text \<open>
  The worker returns the pair (successful, failed), or raises what the sleep between two
  attempts raises; either way with the effects it had.
\<close>

fun delete_attempts ::
  "(real \<Rightarrow> string option) \<Rightarrow> ('v, 'r) delete_session \<Rightarrow> real \<Rightarrow> int \<Rightarrow> string \<Rightarrow> 'r list
     \<Rightarrow> delete_batch_num \<Rightarrow> nat list
     \<Rightarrow> ('v, 'r, delete_batch_num) effect list
     \<Rightarrow> (string + nat \<times> nat) \<times> ('v, 'r, delete_batch_num) effect list" where
  "delete_attempts sleep session retry_delay max_retries table_name rows_batch batch_num [] tr =
     (Inr (0, length rows_batch), tr)"
| "delete_attempts sleep session retry_delay max_retries table_name rows_batch batch_num (attempt # rest) tr =
     (case delete_attempt (session batch_num attempt) table_name rows_batch of
        (None, tr1) \<Rightarrow> (Inr (length rows_batch, 0), tr @ tr1)
      | (Some e, tr1) \<Rightarrow>
          (let tr2 = tr @ tr1 @ [LogError (BatchError table_name batch_num (attempt + 1) e)]
           in if int attempt = max_retries - 1 then (Inr (0, length rows_batch), tr2)
              else
                (case sleep (retry_delay * real (attempt + 1)) of
                   Some err \<Rightarrow> (Inl err, tr2)
                 | None \<Rightarrow>
                     delete_attempts sleep session retry_delay max_retries table_name rows_batch batch_num rest
                       (tr2 @ [Sleep (retry_delay * real (attempt + 1))]))))"

text \<open>
  What the loop over the finished futures adds to \<^verbatim>\<open>total_deleted\<close> for a worker: the
  successful count it returned, nothing when it raised.
\<close>

fun deleted_rows :: "string + nat \<times> nat \<Rightarrow> nat" where
  "deleted_rows (Inr (deleted, not_deleted)) = deleted"
| "deleted_rows (Inl e) = 0"

definition execute_delete_batch ::
  "(real \<Rightarrow> string option) \<Rightarrow> ('v, 'r) delete_session \<Rightarrow> real \<Rightarrow> int \<Rightarrow> string \<Rightarrow> 'r list
     \<Rightarrow> delete_batch_num
     \<Rightarrow> (string + nat \<times> nat) \<times> ('v, 'r, delete_batch_num) effect list" where
  "execute_delete_batch sleep session retry_delay max_retries table_name rows_batch batch_num =
     delete_attempts sleep session retry_delay max_retries table_name rows_batch batch_num
       [0..<nat max_retries] []"

subsection \<open>What a list of effects holds\<close>

fun sleeps :: "('v, 'r, 'n) effect list \<Rightarrow> real list" where
  "sleeps [] = []"
| "sleeps (Sleep d # tr) = d # sleeps tr"
| "sleeps (e # tr) = sleeps tr"

fun executed :: "('v, 'r, 'n) effect list \<Rightarrow> ('v, 'r) statement list" where
  "executed [] = []"
| "executed (Execute s # tr) = s # executed tr"
| "executed (e # tr) = executed tr"

fun logged_errors :: "('v, 'r, 'n) effect list \<Rightarrow> 'n batch_error list" where
  "logged_errors [] = []"
| "logged_errors (LogError m # tr) = m # logged_errors tr"
| "logged_errors (e # tr) = logged_errors tr"

fun attempt_number :: "'n batch_error \<Rightarrow> nat" where
  "attempt_number (BatchError table_name batch_num attempt e) = attempt"

fun statement_size :: "('v, 'r) statement \<Rightarrow> nat" where
  "statement_size (InsertBatch table_name columns rows) = length rows"
| "statement_size (DeleteBatch table_name rows) = length rows"

subsection \<open>\<^verbatim>\<open>batch_insert_dicts_to_cassandra\<close>\<close>

record table_stat =
  successful :: nat
  failed :: nat
  batches :: nat
  errors :: "nat batch_error list"

definition empty_stat :: table_stat where
  "empty_stat = \<lparr>successful = 0, failed = 0, batches = 0, errors = []\<rparr>"

datatype stat_value = IntV int | FloatV real | TablesV "(string \<times> table_stat) list"

type_synonym report = "(string \<times> stat_value) list"

type_synonym 'v task = "string \<times> 'v py_dict list \<times> nat"

text \<open>
  \<^verbatim>\<open>for table_name, table_data in tables_data.items(): for i in range(0, len(table_data),
  batch_size): all_tasks.append((table_name, table_data[i:i + batch_size], i // batch_size + 1))\<close>
\<close>

fun build_tasks :: "int \<Rightarrow> (string \<times> 'v py_dict list) list \<Rightarrow> string + 'v task list" where
  "build_tasks batch_size [] = Inr []"
| "build_tasks batch_size ((table_name, table_data) # tables_data) =
     (case chunks batch_size table_data of
        Inl e \<Rightarrow> Inl e
      | Inr cs \<Rightarrow>
          (case build_tasks batch_size tables_data of
             Inl e \<Rightarrow> Inl e
           | Inr tasks \<Rightarrow> Inr (map (\<lambda>(batch_data, batch_num). (table_name, batch_data, batch_num)) cs @ tasks)))"

text \<open>
  The body of the \<^verbatim>\<open>as_completed\<close> loop for one future: the result of a worker that
  returned is added to the statistics of its table; for a worker that raised, the handler
  around \<^verbatim>\<open>future.result()\<close> adds the length of the batch to the failed count of the table.
\<close>

definition add_result :: "table_stat \<Rightarrow> ('v, 'r) batch_result \<Rightarrow> table_stat" where
  "add_result s res =
     s\<lparr>successful := successful s + local_successful res,
       failed := failed s + local_failed res,
       batches := batches s + 1,
       errors := errors s @ local_errors res\<rparr>"

definition record_result ::
  "(string \<times> table_stat) list \<Rightarrow> 'v task \<times> ('v, 'r) batch_result \<Rightarrow> (string \<times> table_stat) list" where
  "record_result table_stats future =
     (case future of ((table_name, batch_data, batch_num), res) \<Rightarrow>
        (case raised res of
           None \<Rightarrow>
             dict_update table_name
               (\<lambda>old. add_result (case old of None \<Rightarrow> empty_stat | Some s \<Rightarrow> s) res)
               table_stats
         | Some e \<Rightarrow>
             dict_update table_name
               (\<lambda>old. (case old of None \<Rightarrow> empty_stat | Some s \<Rightarrow> s)
                        \<lparr>failed := failed (case old of None \<Rightarrow> empty_stat | Some s \<Rightarrow> s)
                                      + length batch_data\<rparr>)
               table_stats))"

definition total_successful :: "(string \<times> table_stat) list \<Rightarrow> nat" where
  "total_successful table_stats = sum_list (map (\<lambda>(t, stats). successful stats) table_stats)"

definition total_failed :: "(string \<times> table_stat) list \<Rightarrow> nat" where
  "total_failed table_stats = sum_list (map (\<lambda>(t, stats). failed stats) table_stats)"

definition final_stats :: "nat \<Rightarrow> (string \<times> table_stat) list \<Rightarrow> real \<Rightarrow> report" where
  "final_stats total_records table_stats execution_time =
     [(''total_records'', IntV (int total_records)),
      (''total_successful'', IntV (int (total_successful table_stats))),
      (''total_failed'', IntV (int (total_failed table_stats))),
      (''success_rate'',
         if total_records > 0
         then FloatV (real (total_successful table_stats) / real total_records * 100)
         else IntV 0),
      (''execution_time'', FloatV execution_time),
      (''records_per_second'',
         if execution_time > 0
         then FloatV (real (total_successful table_stats) / execution_time)
         else IntV 0),
      (''tables'', TablesV table_stats)]"

definition group_by_table :: "(string \<times> 'v py_dict) list \<Rightarrow> (string \<times> 'v py_dict list) list" where
  "group_by_table records = group_by fst snd records []"

definition submit_all ::
  "(real \<Rightarrow> string option) \<Rightarrow> ('v, 'r) insert_session \<Rightarrow> real \<Rightarrow> int \<Rightarrow> 'v task list
     \<Rightarrow> ('v task \<times> ('v, 'r) batch_result) list" where
  "submit_all sleep session retry_delay max_retries all_tasks =
     map (\<lambda>(table_name, batch_data, batch_num).
            ((table_name, batch_data, batch_num),
             execute_table_batch sleep session retry_delay max_retries table_name batch_data batch_num))
         all_tasks"

text \<open>
  \<open>execution_time\<close> is what the two readings of the clock give. The parameters
  \<^verbatim>\<open>use_prepared\<close>, \<^verbatim>\<open>consistency_level\<close>, \<^verbatim>\<open>timeout\<close> and \<^verbatim>\<open>log_progress\<close> change how a
  statement is sent and what is logged, not what is counted. An exception inside the
  outer \<^verbatim>\<open>try\<close> is logged and raised again.
\<close>

definition batch_insert_dicts_to_cassandra ::
  "(real \<Rightarrow> string option) \<Rightarrow> ('v, 'r) insert_session
     \<Rightarrow> (('v task \<times> ('v, 'r) batch_result) list \<Rightarrow> ('v task \<times> ('v, 'r) batch_result) list)
     \<Rightarrow> real \<Rightarrow> (string \<times> 'v py_dict) list \<Rightarrow> int \<Rightarrow> int \<Rightarrow> real \<Rightarrow> int
     \<Rightarrow> string + report" where
  "batch_insert_dicts_to_cassandra sleep session as_completed execution_time
       records batch_size concurrency retry_delay max_retries =
     (if records = []
      then Inr [(''total_records'', IntV 0), (''tables'', TablesV []), (''execution_time'', IntV 0)]
      else
        (case build_tasks batch_size (group_by_table records) of
           Inl e \<Rightarrow> Inl e
         | Inr all_tasks \<Rightarrow>
             (case thread_pool concurrency of
                Some e \<Rightarrow> Inl e
              | None \<Rightarrow>
                  Inr (final_stats (length records)
                         (foldl record_result []
                            (as_completed (submit_all sleep session retry_delay max_retries all_tasks)))
                         execution_time))))"

subsection \<open>Paged scans\<close>

text \<open>
  What \<^verbatim>\<open>session.execute(statement)\<close> returns for the key scan of a table: the rows of the
  current page and, when \<^verbatim>\<open>has_more_pages\<close> holds, what the fetch of the next page with
  \<^verbatim>\<open>paging_state\<close> will do (raise or return the next result set).
\<close>

datatype 'r result_set = ResultSet "'r list" "'r paging"
  and 'r paging = NoMorePages | NextRaises string | NextReturns "'r result_set"

text \<open>
  The loop over the pages handles a page when it has rows, and fetches the next page when
  the page handled has more pages. \<open>numbered_pages n rs\<close> lists the pages the loop
  handles, numbered from \<open>n\<close>, when nothing in the loop raises: they end with the last
  page, before an empty page, or before a fetch that raises. \<open>pages_of\<close> are their rows.
\<close>

fun numbered_pages :: "nat \<Rightarrow> 'r result_set \<Rightarrow> (nat \<times> 'r list) list" where
  "numbered_pages n (ResultSet rows nxt) =
     (if rows = [] then []
      else (n, rows) # (case nxt of NextReturns rs \<Rightarrow> numbered_pages (n + 1) rs | _ \<Rightarrow> []))"

definition pages_of :: "'r result_set \<Rightarrow> 'r list list" where
  "pages_of rs = map snd (numbered_pages 1 rs)"

text \<open>
  Modelled from the spec: the scanner of the database driver, which is not part of the
  repository. A key-only query with the row-count hint \<open>page_size\<close> over a table holding
  \<open>rows\<close> yields the rows in pages of \<open>page_size\<close>, the last page possibly shorter.
\<close>

fun result_set_of_pages :: "'r list list \<Rightarrow> 'r result_set" where
  "result_set_of_pages [] = ResultSet [] NoMorePages"
| "result_set_of_pages [page] = ResultSet page NoMorePages"
| "result_set_of_pages (page # pages) = ResultSet page (NextReturns (result_set_of_pages pages))"

definition scan_keys :: "nat \<Rightarrow> 'r list \<Rightarrow> 'r result_set" where
  "scan_keys page_size rows = result_set_of_pages (batches_of page_size rows)"

subsection \<open>\<^verbatim>\<open>delete_all_rows_batch_multiple\<close>\<close>

record table_metadata =
  partition_key :: "string list"
  clustering_key :: "string list"

type_synonym 'r delete_task = "'r list \<times> delete_batch_num"

type_synonym ('v, 'r) delete_future =
  "'r delete_task \<times> ((string + nat \<times> nat) \<times> ('v, 'r, delete_batch_num) effect list)"

text \<open>
  The batches of a page with their batch numbers (table, page number, \<^verbatim>\<open>i // batch_size + 1\<close>),
  and those of all the pages of a scan.
\<close>

definition page_tasks :: "nat \<Rightarrow> string \<Rightarrow> nat \<times> 'r list \<Rightarrow> 'r delete_task list" where
  "page_tasks n table_name page =
     map (\<lambda>i. (slice (snd page) i n, (table_name, fst page, i div n + 1)))
         (range_step (length (snd page)) n)"

definition table_tasks :: "nat \<Rightarrow> string \<Rightarrow> 'r result_set \<Rightarrow> 'r delete_task list" where
  "table_tasks n table_name rs = concat (map (page_tasks n table_name) (numbered_pages 1 rs))"

text \<open>
  The environment of a multi-table delete: the tables of the keyspace, what preparing the
  DELETE of a table does, what the key scan of a table with a given fetch size does, the
  driver's answers to the requests of the grouped deletes, what \<^verbatim>\<open>time.sleep\<close> does, and the
  two completion orders (of the batches of a page, of the tables).
\<close>

record ('v, 'r) delete_env =
  tables :: "string \<Rightarrow> table_metadata option"
  prepare :: "string \<Rightarrow> string option"
  select_keys :: "string \<Rightarrow> int \<Rightarrow> string + 'r result_set"
  delete_session :: "('v, 'r) delete_session"
  time_sleep :: "real \<Rightarrow> string option"
  batches_completed :: "('v, 'r) delete_future list \<Rightarrow> ('v, 'r) delete_future list"
  tables_completed ::
    "(string \<times> nat \<times> ('v, 'r, delete_batch_num) effect list) list
       \<Rightarrow> (string \<times> nat \<times> ('v, 'r, delete_batch_num) effect list) list"

text \<open>
  The \<^verbatim>\<open>while True\<close> loop of \<^verbatim>\<open>process_table\<close>, entered with the page number already
  incremented. Whatever raises inside (the range with a zero step, the pool with no
  worker, the fetch of the next page) is caught by the handler around the loop, which logs
  and lets the function return the count reached; a worker that raised is logged by the
  handler around \<^verbatim>\<open>future.result()\<close> and adds nothing. The effects of the workers of a page
  are listed worker after worker in completion order.
\<close>

fun process_pages ::
  "('v, 'r) delete_env \<Rightarrow> int \<Rightarrow> int \<Rightarrow> real \<Rightarrow> int \<Rightarrow> string \<Rightarrow> nat \<Rightarrow> 'r result_set
     \<Rightarrow> nat \<times> ('v, 'r, delete_batch_num) effect list
     \<Rightarrow> nat \<times> ('v, 'r, delete_batch_num) effect list" where
  "process_pages env batch_size concurrency retry_delay max_retries table_name page_num
       (ResultSet rows nxt) (total_deleted, tr) =
     (if rows = [] then (total_deleted, tr)
      else
        (case chunks batch_size rows of
           Inl e \<Rightarrow> (total_deleted, tr)
         | Inr cs \<Rightarrow>
             (case thread_pool concurrency of
                Some e \<Rightarrow> (total_deleted, tr)
              | None \<Rightarrow>
                  (let futures =
                         map (\<lambda>(batch_rows, i).
                                ((batch_rows, (table_name, page_num, i)),
                                 execute_delete_batch (time_sleep env) (delete_session env) retry_delay
                                   max_retries table_name batch_rows (table_name, page_num, i)))
                             cs;
                       finished = batches_completed env futures;
                       total_deleted' =
                         foldl (\<lambda>total (task, (result, effs)). total + deleted_rows result)
                               total_deleted finished;
                       tr' = tr @ concat (map (\<lambda>(task, (result, effs)). effs) finished)
                   in (case nxt of
                         NoMorePages \<Rightarrow> (total_deleted', tr')
                       | NextRaises e \<Rightarrow> (total_deleted', tr')
                       | NextReturns rs \<Rightarrow>
                           process_pages env batch_size concurrency retry_delay max_retries
                             table_name (page_num + 1) rs (total_deleted', tr'))))))"

definition process_table ::
  "('v, 'r) delete_env \<Rightarrow> (string \<times> table_metadata) list
     \<Rightarrow> int \<Rightarrow> int \<Rightarrow> int \<Rightarrow> real \<Rightarrow> int \<Rightarrow> string
     \<Rightarrow> string \<times> nat \<times> ('v, 'r, delete_batch_num) effect list" where
  "process_table env tables_metadata page_size batch_size concurrency retry_delay max_retries table_name =
     (if table_name \<notin> fst ` set tables_metadata then (table_name, 0, [])
      else
        (case select_keys env table_name page_size of
           Inl e \<Rightarrow> (table_name, 0, [])
         | Inr result_set \<Rightarrow>
             (table_name,
              process_pages env batch_size concurrency retry_delay max_retries table_name 1
                result_set (0, []))))"

text \<open>
  The first loop of \<^verbatim>\<open>delete_all_rows_batch_multiple\<close>: a table absent from the keyspace is
  logged and skipped, the DELETE of a present one is prepared. An exception of
  \<^verbatim>\<open>session.prepare\<close> is not caught.
\<close>

fun prepare_tables ::
  "('v, 'r) delete_env \<Rightarrow> string list
     \<Rightarrow> ('v, 'r, delete_batch_num) effect list \<times> (string \<times> table_metadata) list
     \<Rightarrow> string + ('v, 'r, delete_batch_num) effect list \<times> (string \<times> table_metadata) list" where
  "prepare_tables env [] (warnings, tables_metadata) = Inr (warnings, tables_metadata)"
| "prepare_tables env (table_name # table_names) (warnings, tables_metadata) =
     (case tables env table_name of
        None \<Rightarrow> prepare_tables env table_names (warnings @ [LogWarning table_name], tables_metadata)
      | Some table_metadata \<Rightarrow>
          (case prepare env table_name of
             Some e \<Rightarrow> Inl e
           | None \<Rightarrow>
               prepare_tables env table_names
                 (warnings, dict_set table_name table_metadata tables_metadata)))"

text \<open>
  \<^verbatim>\<open>process_table\<close> catches what its loop raises, so the handler of the outer
  \<^verbatim>\<open>as_completed\<close> loop is not entered. The function returns the warnings it logged and
  the dict of deleted counts.
\<close>

definition delete_all_rows_batch_multiple ::
  "('v, 'r) delete_env \<Rightarrow> string list \<Rightarrow> int \<Rightarrow> int \<Rightarrow> int \<Rightarrow> real \<Rightarrow> int
     \<Rightarrow> string + ('v, 'r, delete_batch_num) effect list \<times> (string \<times> nat) list" where
  "delete_all_rows_batch_multiple env table_names page_size batch_size concurrency retry_delay max_retries =
     (case prepare_tables env table_names ([], []) of
        Inl e \<Rightarrow> Inl e
      | Inr (warnings, tables_metadata) \<Rightarrow>
          (case thread_pool (min (int (length table_names)) concurrency) of
             Some e \<Rightarrow> Inl e
           | None \<Rightarrow>
               Inr (warnings,
                    foldl (\<lambda>results (table_name, deleted_count, effs). dict_set table_name deleted_count results)
                      []
                      (tables_completed env
                         (map (process_table env tables_metadata page_size batch_size concurrency
                                 retry_delay max_retries)
                              table_names)))))"

subsection \<open>The counting loop of \<^verbatim>\<open>delete_all_rows\<close>\<close>

text \<open>
  \<^verbatim>\<open>delete_all_rows\<close> deletes row by row, \<^verbatim>\<open>concurrency\<close> rows at a time. Every request of a
  batch (prepare, \<^verbatim>\<open>execute_async\<close> with its retries, \<^verbatim>\<open>future.result()\<close>) sits in a
  \<^verbatim>\<open>try\<close> whose handler logs and goes on, so the requests do not reach the counter
  \<^verbatim>\<open>total_deleted\<close>, which grows by \<^verbatim>\<open>len(batch)\<close> after each batch. The function returns
  nothing; it logs the counter in its \<^verbatim>\<open>finally\<close> clause. The model returns the exception
  raised, if any, and the counter logged, if the \<^verbatim>\<open>try\<close> was entered.
\<close>

fun count_pages :: "int \<Rightarrow> 'r result_set \<Rightarrow> nat \<Rightarrow> string option \<times> nat" where
  "count_pages concurrency (ResultSet rows nxt) total_deleted =
     (if rows = [] then (None, total_deleted)
      else
        (case chunks concurrency rows of
           Inl e \<Rightarrow> (Some e, total_deleted)
         | Inr cs \<Rightarrow>
             (let total_deleted' = foldl (\<lambda>total (batch, i). total + length batch) total_deleted cs
              in (case nxt of
                    NoMorePages \<Rightarrow> (None, total_deleted')
                  | NextRaises e \<Rightarrow> (Some e, total_deleted')
                  | NextReturns rs \<Rightarrow> count_pages concurrency rs total_deleted'))))"

definition delete_all_rows ::
  "(string \<Rightarrow> table_metadata option) \<Rightarrow> (string \<Rightarrow> int \<Rightarrow> string + 'r result_set)
     \<Rightarrow> string \<Rightarrow> int \<Rightarrow> int \<Rightarrow> string option \<times> nat option" where
  "delete_all_rows keyspace_tables scan table_name page_size concurrency =
     (case keyspace_tables table_name of
        None \<Rightarrow> (Some ''ValueError: table not found'', None)
      | Some table_metadata \<Rightarrow>
          (if partition_key table_metadata @ clustering_key table_metadata = []
           then (Some ''ValueError: no primary key'', None)
           else
             (case scan table_name page_size of
                Inl e \<Rightarrow> (Some e, Some 0)
              | Inr result_set \<Rightarrow>
                  (case count_pages concurrency result_set 0 of
                     (exc, total_deleted) \<Rightarrow> (exc, Some total_deleted)))))"

text \<open>Every record of a column group has the columns of the group's key.\<close>

definition well_keyed :: "(string list \<times> 'v py_dict list) list \<Rightarrow> bool" where
  "well_keyed groups = (\<forall>g \<in> set groups. \<forall>r \<in> set (snd g). columns_key r = fst g)"

text \<open>
  What the driver answers for the write of a column group in an attempt: the write runs
  when its statement is prepared and the values of each record of the group are added to
  the batch, so that \<^verbatim>\<open>session.execute\<close> is called with it, and it returns when
  \<^verbatim>\<open>session.execute\<close> returns as well. The groups sent in an attempt are those before the
  first group whose write does not return, and that group too when its write runs.
\<close>

definition group_runs ::
  "(('v, 'r) request \<Rightarrow> string option) \<Rightarrow> string \<Rightarrow> string list \<times> 'v py_dict list \<Rightarrow> bool" where
  "group_runs ex table_name g =
     (ex (Prepare table_name (fst g)) = None
      \<and> (\<forall>record \<in> set (snd g).
            ex (AddInsert table_name (fst g) (map (\<lambda>col. the (map_of record col)) (fst g))) = None))"

definition group_returns ::
  "(('v, 'r) request \<Rightarrow> string option) \<Rightarrow> string \<Rightarrow> string list \<times> 'v py_dict list \<Rightarrow> bool" where
  "group_returns ex table_name g =
     (group_runs ex table_name g \<and> ex (Run (insert_statement table_name g)) = None)"

definition sent_groups ::
  "(('v, 'r) request \<Rightarrow> string option) \<Rightarrow> string \<Rightarrow> (string list \<times> 'v py_dict list) list
     \<Rightarrow> (string list \<times> 'v py_dict list) list" where
  "sent_groups ex table_name groups =
     takeWhile (group_returns ex table_name) groups
     @ (case dropWhile (group_returns ex table_name) groups of
          [] \<Rightarrow> []
        | g # rest \<Rightarrow> if group_runs ex table_name g then [g] else [])"

text \<open>The worker of \<^verbatim>\<open>process_table\<close> on a batch with its number.\<close>

definition delete_worker ::
  "('v, 'r) delete_env \<Rightarrow> real \<Rightarrow> int \<Rightarrow> string \<Rightarrow> 'r delete_task
     \<Rightarrow> (string + nat \<times> nat) \<times> ('v, 'r, delete_batch_num) effect list" where
  "delete_worker env retry_delay max_retries table_name task =
     execute_delete_batch (time_sleep env) (delete_session env) retry_delay max_retries table_name
       (fst task) (snd task)"

text \<open>
  The grouped delete of a batch succeeds when the driver answers the requests of one of
  the \<^verbatim>\<open>max_retries\<close> attempts without raising, and the sleeps after the attempts before it
  returned.
\<close>

definition delete_succeeds ::
  "('v, 'r) delete_env \<Rightarrow> real \<Rightarrow> int \<Rightarrow> string \<Rightarrow> 'r delete_task \<Rightarrow> bool" where
  "delete_succeeds env retry_delay max_retries table_name task =
     (\<exists>a \<in> set [0..<nat max_retries].
         (\<forall>row \<in> set (fst task). delete_session env (snd task) a (AddDelete table_name row) = None)
       \<and> delete_session env (snd task) a (Run (DeleteBatch table_name (fst task))) = None
       \<and> (\<forall>a' \<in> set [0..<a]. time_sleep env (retry_delay * real (a' + 1)) = None))"


text \<open>
  The tasks \<^verbatim>\<open>all_tasks\<close> holds for a positive batch size, table by table, and the worker
  on a task.
\<close>

definition table_batches :: "nat \<Rightarrow> string \<times> 'v py_dict list \<Rightarrow> 'v task list" where
  "table_batches n table =
     map (\<lambda>i. (fst table, slice (snd table) i n, i div n + 1)) (range_step (length (snd table)) n)"

definition all_tasks_of :: "nat \<Rightarrow> (string \<times> 'v py_dict) list \<Rightarrow> 'v task list" where
  "all_tasks_of n records = concat (map (table_batches n) (group_by_table records))"

definition insert_worker ::
  "(real \<Rightarrow> string option) \<Rightarrow> ('v, 'r) insert_session \<Rightarrow> real \<Rightarrow> int \<Rightarrow> 'v task
     \<Rightarrow> ('v, 'r) batch_result" where
  "insert_worker sleep session retry_delay max_retries task =
     execute_table_batch sleep session retry_delay max_retries (fst task) (fst (snd task)) (snd (snd task))"

subsection \<open>Sessions and completion orders for examples\<close>

text \<open>
  A driver that answers every request, one whose \<^verbatim>\<open>session.execute\<close> times out for the
  first batch of each table, and for the deletes one whose \<^verbatim>\<open>session.execute\<close> always times
  out. The sleep of the examples returns, as \<^verbatim>\<open>time.sleep\<close> does for their delays (half a
  second and one second).
\<close>

definition insert_ok :: "('v, 'r) insert_session" where
  "insert_ok table_name batch_num attempt request = None"

definition first_batch_fails :: "('v, 'r) insert_session" where
  "first_batch_fails table_name batch_num attempt request =
     (case request of
        Run stmt \<Rightarrow> if batch_num = 1 then Some ''WriteTimeout'' else None
      | _ \<Rightarrow> None)"

definition delete_ok :: "('v, 'r) delete_session" where
  "delete_ok batch_num attempt request = None"

definition delete_failing :: "('v, 'r) delete_session" where
  "delete_failing batch_num attempt request =
     (case request of Run stmt \<Rightarrow> Some ''WriteTimeout'' | _ \<Rightarrow> None)"

definition sleep_returns :: "real \<Rightarrow> string option" where
  "sleep_returns secs = None"

definition submission_order :: "'a list \<Rightarrow> 'a list" where
  "submission_order futures = futures"

text \<open>
  A keyspace with the single table \<^verbatim>\<open>t\<close> (key column \<^verbatim>\<open>id\<close>) holding the given rows, read
  in pages of the fetch size, with the given answers to the grouped deletes.
\<close>

definition one_table_env :: "nat list \<Rightarrow> (int, nat) delete_session \<Rightarrow> (int, nat) delete_env" where
  "one_table_env rows session =
     \<lparr>tables = (\<lambda>table_name. if table_name = ''t''
                                then Some \<lparr>partition_key = [''id''], clustering_key = []\<rparr>
                                else None),
      prepare = (\<lambda>table_name. None),
      select_keys = (\<lambda>table_name page_size. Inr (scan_keys (nat page_size) rows)),
      delete_session = session,
      time_sleep = sleep_returns,
      batches_completed = submission_order,
      tables_completed = submission_order\<rparr>"

section \<open>Lemmas\<close>

subsection \<open>Effects\<close>

lemma sleeps_append: "sleeps (a @ b) = sleeps a @ sleeps b"
  by (induction a rule: sleeps.induct) simp_all

lemma executed_append: "executed (a @ b) = executed a @ executed b"
  by (induction a rule: executed.induct) simp_all

lemma logged_errors_append: "logged_errors (a @ b) = logged_errors a @ logged_errors b"
  by (induction a rule: logged_errors.induct) simp_all

subsection \<open>Dictionaries and grouping\<close>

lemma map_of_dict_update:
  "map_of (dict_update k f d) = (map_of d)(k \<mapsto> f (map_of d k))"
  by (induction d) auto

lemma keys_dict_update:
  "map fst (dict_update k f d) = (if k \<in> fst ` set d then map fst d else map fst d @ [k])"
proof (induction d)
  case Nil
  then show ?case by simp
next
  case (Cons p d)
  obtain k' v where p: "p = (k', v)" by (cases p)
  show ?case
  proof (cases "k = k'")
    case True
    then show ?thesis by (simp add: p)
  next
    case False
    then show ?thesis using Cons.IH by (simp add: p)
  qed
qed

lemma key_set_dict_update:
  "fst ` set (dict_update k f d) = insert k (fst ` set d)"
proof -
  have "set (map fst (dict_update k f d)) = insert k (set (map fst d))"
    unfolding keys_dict_update by auto
  then show ?thesis by simp
qed

lemma distinct_dict_update:
  "distinct (map fst d) \<Longrightarrow> distinct (map fst (dict_update k f d))"
  by (simp add: keys_dict_update)

lemma group_by_Nil: "group_by key val [] d = d"
  by (simp add: group_by_def)

lemma group_by_Cons: "group_by key val (x # xs) d = group_by key val xs (list_append (key x) (val x) d)"
  by (simp add: group_by_def)

lemma distinct_group_by:
  "distinct (map fst d) \<Longrightarrow> distinct (map fst (group_by key val xs d))"
  by (induction xs arbitrary: d) (simp_all add: group_by_Nil group_by_Cons list_append_def distinct_dict_update)

lemma map_of_group_by:
  "map_of (group_by key val xs d) k =
     (if filter (\<lambda>x. key x = k) xs = [] then map_of d k
      else Some ((case map_of d k of None \<Rightarrow> [] | Some ys \<Rightarrow> ys) @ map val (filter (\<lambda>x. key x = k) xs)))"
proof (induction xs arbitrary: d)
  case Nil
  then show ?case by (simp add: group_by_Nil)
next
  case (Cons x xs)
  show ?case
    unfolding group_by_Cons Cons.IH
    by (simp add: list_append_def map_of_dict_update split: option.splits)
qed

lemma keys_group_by:
  "fst ` set (group_by key val xs d) = fst ` set d \<union> key ` set xs"
proof (induction xs arbitrary: d)
  case Nil
  then show ?case by (simp add: group_by_Nil)
next
  case (Cons x xs)
  have "fst ` set (list_append (key x) (val x) d) = insert (key x) (fst ` set d)"
    unfolding list_append_def by (rule key_set_dict_update)
  then show ?case unfolding group_by_Cons Cons.IH by auto
qed


lemma group_by_members:
  assumes "(k, ys) \<in> set (group_by key val xs [])"
  shows "ys = map val (filter (\<lambda>x. key x = k) xs) \<and> ys \<noteq> []"
proof -
  have "distinct (map fst (group_by key val xs []))" by (simp add: distinct_group_by)
  then have "map_of (group_by key val xs []) k = Some ys" using assms by simp
  then show ?thesis by (auto simp: map_of_group_by split: if_splits)
qed

lemma group_by_complete:
  assumes "x \<in> set xs"
  shows "(key x, map val (filter (\<lambda>y. key y = key x) xs)) \<in> set (group_by key val xs [])"
proof -
  have "filter (\<lambda>y. key y = key x) xs \<noteq> []" using assms by (auto simp: filter_empty_conv)
  then have "map_of (group_by key val xs []) (key x) = Some (map val (filter (\<lambda>y. key y = key x) xs))"
    by (simp add: map_of_group_by)
  then show ?thesis by (rule map_of_SomeD)
qed

lemma length_group_by: "length (group_by key val xs []) = card (key ` set xs)"
proof -
  have d: "distinct (map fst (group_by key val xs []))" by (simp add: distinct_group_by)
  have "length (group_by key val xs []) = length (map fst (group_by key val xs []))" by simp
  also have "\<dots> = card (set (map fst (group_by key val xs [])))"
    using d by (simp only: distinct_card)
  also have "\<dots> = card (key ` set xs)" using keys_group_by[of key val xs "[]"] by simp
  finally show ?thesis .
qed

lemma columns_key_eq_iff:
  assumes "distinct (map fst r1)" "distinct (map fst r2)"
  shows "columns_key r1 = columns_key r2 \<longleftrightarrow> fst ` set r1 = fst ` set r2"
proof
  assume "columns_key r1 = columns_key r2"
  then have "set (sort (map fst r1)) = set (sort (map fst r2))" by (simp add: columns_key_def)
  then show "fst ` set r1 = fst ` set r2" by simp
next
  assume "fst ` set r1 = fst ` set r2"
  then have "set (map fst r1) = set (map fst r2)" by simp
  then have "mset (map fst r1) = mset (map fst r2)"
    using set_eq_iff_mset_eq_distinct[OF assms] by blast
  then show "columns_key r1 = columns_key r2"
    unfolding columns_key_def by (metis properties_for_sort sorted_sort mset_sort)
qed

lemma those_map_Some:
  "(\<forall>x \<in> set xs. f x \<noteq> None) \<Longrightarrow> those (map f xs) = Some (map (\<lambda>x. the (f x)) xs)"
  by (induction xs) auto

lemma values_of_columns_key:
  assumes "columns_key r = k"
  shows "values_of k r = Some (map (\<lambda>c. the (map_of r c)) k)"
proof -
  have "\<forall>c \<in> set k. map_of r c \<noteq> None"
    using assms by (auto simp: columns_key_def map_of_eq_None_iff)
  then show ?thesis unfolding values_of_def by (rule those_map_Some)
qed

subsection \<open>The attempts of a worker\<close>

text \<open>
  The loop over the attempts stops at the first attempt that succeeds, that is the last
  one allowed, or whose sleep raises; every attempt before it failed and slept.
\<close>

lemma last_attempt_exists:
  assumes "k < nat M"
  shows "\<exists>n. k \<le> n \<and> n < nat M \<and> (\<forall>a. k \<le> a \<and> a < n \<longrightarrow> F a \<and> S a)
             \<and> (\<not> F n \<or> int n = M - 1 \<or> \<not> S n)"
  using assms
proof (induction "nat M - k" arbitrary: k)
  case 0
  then show ?case by simp
next
  case (Suc m)
  show ?case
  proof (cases "\<not> F k \<or> int k = M - 1 \<or> \<not> S k")
    case True
    then show ?thesis using Suc.prems by (intro exI[of _ k]) auto
  next
    case False
    then have lt: "Suc k < nat M" using Suc.prems by linarith
    have m: "m = nat M - Suc k" using Suc.hyps(2) by simp
    obtain n where n: "Suc k \<le> n" "n < nat M" "\<forall>a. Suc k \<le> a \<and> a < n \<longrightarrow> F a \<and> S a"
      "\<not> F n \<or> int n = M - 1 \<or> \<not> S n"
      using Suc.hyps(1)[OF m lt] by blast
    have "\<forall>a. k \<le> a \<and> a < n \<longrightarrow> F a \<and> S a"
    proof (intro allI impI)
      fix a assume a: "k \<le> a \<and> a < n"
      show "F a \<and> S a"
      proof (cases "a = k")
        case True
        then show ?thesis using False by simp
      next
        case False
        then have "Suc k \<le> a \<and> a < n" using a by simp
        then show ?thesis using n(3) by blast
      qed
    qed
    then show ?thesis using n(1,2,4) by (intro exI[of _ n]) simp
  qed
qed

lemma insert_attempts_run:
  fixes session :: "('v, 'r) insert_session"
  assumes "k \<le> n" "n < nat M"
    and "\<forall>a. k \<le> a \<and> a < n \<longrightarrow>
           fst (execute_groups (session t bn a) t (group_by_columns b)) \<noteq> None
           \<and> sleep (d * real (a + 1)) = None"
    and "fst (execute_groups (session t bn n) t (group_by_columns b)) = None
           \<or> int n = M - 1 \<or> sleep (d * real (n + 1)) \<noteq> None"
  shows "insert_attempts sleep session d M t b bn [k..<nat M] st =
     \<lparr>local_successful =
         (if fst (execute_groups (session t bn n) t (group_by_columns b)) = None
          then length b else local_successful st),
       local_failed =
         (if fst (execute_groups (session t bn n) t (group_by_columns b)) \<noteq> None \<and> int n = M - 1
          then length b else local_failed st),
       local_errors = local_errors st @
         map (\<lambda>a. BatchError t bn (a + 1)
                    (the (fst (execute_groups (session t bn a) t (group_by_columns b)))))
             (if fst (execute_groups (session t bn n) t (group_by_columns b)) = None
              then [k..<n] else [k..<n + 1]),
       effects = effects st @
         concat (map (\<lambda>a. snd (execute_groups (session t bn a) t (group_by_columns b))
                           @ [Sleep (d * real (a + 1))])
                     [k..<n])
         @ snd (execute_groups (session t bn n) t (group_by_columns b)),
       raised =
         (if fst (execute_groups (session t bn n) t (group_by_columns b)) = None \<or> int n = M - 1
          then raised st else sleep (d * real (n + 1)))\<rparr>"
  using assms
proof (induction "n - k" arbitrary: k st)
  case 0
  then have kn: "k = n" by simp
  have up: "[n..<nat M] = n # [Suc n..<nat M]"
    using "0.prems"(2) by (simp add: upt_conv_Cons)
  obtain r tr where body: "execute_groups (session t bn n) t (group_by_columns b) = (r, tr)"
    by (cases "execute_groups (session t bn n) t (group_by_columns b)")
  show ?case
  proof (cases r)
    case None
    then show ?thesis unfolding kn up using body by (cases st) simp
  next
    case (Some e)
    show ?thesis
    proof (cases "int n = M - 1")
      case True
      then have emp: "[Suc n..<nat M] = []" by simp
      show ?thesis unfolding kn up emp using body Some True by (cases st) (simp add: Let_def)
    next
      case False
      then obtain err where "sleep (d * real (n + 1)) = Some err"
        using "0.prems"(4) body Some by auto
      then show ?thesis unfolding kn up using body Some False by (cases st) (simp add: Let_def)
    qed
  qed
next
  case (Suc m)
  then have lt: "k < n" by simp
  have up: "[k..<nat M] = k # [Suc k..<nat M]"
    using lt Suc.prems(2) by (simp add: upt_conv_Cons)
  have upn: "[k..<n] = k # [Suc k..<n]" "[k..<n + 1] = k # [Suc k..<n + 1]"
    using lt by (simp_all add: upt_conv_Cons)
  have ne: "int k \<noteq> M - 1" using lt Suc.prems(2) by linarith
  obtain e tr where body: "execute_groups (session t bn k) t (group_by_columns b) = (Some e, tr)"
    using Suc.prems(3) lt by (metis le_refl not_None_eq prod.collapse)
  have sl: "sleep (d * real (k + 1)) = None" using Suc.prems(3) lt by simp
  define st' where "st' = st\<lparr>local_errors := local_errors st @ [BatchError t bn (k + 1) e],
                              effects := effects st @ tr @ [Sleep (d * real (k + 1))]\<rparr>"
  have step: "insert_attempts sleep session d M t b bn [k..<nat M] st
              = insert_attempts sleep session d M t b bn [Suc k..<nat M] st'"
    unfolding up st'_def using body ne sl by (simp add: Let_def)
  have m: "m = n - Suc k" using Suc.hyps(2) by simp
  have le: "Suc k \<le> n" using lt by simp
  have rest: "\<forall>a. Suc k \<le> a \<and> a < n \<longrightarrow>
           fst (execute_groups (session t bn a) t (group_by_columns b)) \<noteq> None
           \<and> sleep (d * real (a + 1)) = None"
    using Suc.prems(3) by simp
  show ?case
    unfolding step Suc.hyps(1)[OF m le Suc.prems(2) rest Suc.prems(4)] upn
    using body by (simp add: st'_def)
qed

lemma execute_table_batch_run:
  fixes session :: "('v, 'r) insert_session"
  assumes "0 < max_retries"
  shows "\<exists>n < nat max_retries.
     (\<forall>a < n. fst (execute_groups (session table_name batch_num a) table_name
                      (group_by_columns batch_data)) \<noteq> None
              \<and> sleep (retry_delay * real (a + 1)) = None)
     \<and> (fst (execute_groups (session table_name batch_num n) table_name
                (group_by_columns batch_data)) = None
          \<or> int n = max_retries - 1 \<or> sleep (retry_delay * real (n + 1)) \<noteq> None)
     \<and> execute_table_batch sleep session retry_delay max_retries table_name batch_data batch_num =
       \<lparr>local_successful =
           (if fst (execute_groups (session table_name batch_num n) table_name
                      (group_by_columns batch_data)) = None
            then length batch_data else 0),
         local_failed =
           (if fst (execute_groups (session table_name batch_num n) table_name
                      (group_by_columns batch_data)) \<noteq> None \<and> int n = max_retries - 1
            then length batch_data else 0),
         local_errors =
           map (\<lambda>a. BatchError table_name batch_num (a + 1)
                      (the (fst (execute_groups (session table_name batch_num a) table_name
                                   (group_by_columns batch_data)))))
               (if fst (execute_groups (session table_name batch_num n) table_name
                          (group_by_columns batch_data)) = None
                then [0..<n] else [0..<n + 1]),
         effects =
           concat (map (\<lambda>a. snd (execute_groups (session table_name batch_num a) table_name
                                    (group_by_columns batch_data))
                             @ [Sleep (retry_delay * real (a + 1))])
                       [0..<n])
           @ snd (execute_groups (session table_name batch_num n) table_name
                    (group_by_columns batch_data)),
         raised =
           (if fst (execute_groups (session table_name batch_num n) table_name
                      (group_by_columns batch_data)) = None \<or> int n = max_retries - 1
            then None else sleep (retry_delay * real (n + 1)))\<rparr>"
proof -
  let ?F = "\<lambda>a. fst (execute_groups (session table_name batch_num a) table_name
                      (group_by_columns batch_data)) \<noteq> None"
  let ?S = "\<lambda>a. sleep (retry_delay * real (a + 1)) = None"
  have "0 < nat max_retries" using assms by simp
  from last_attempt_exists[OF this, of ?F ?S]
  obtain n where n: "n < nat max_retries" "\<forall>a. 0 \<le> a \<and> a < n \<longrightarrow> ?F a \<and> ?S a"
    "\<not> ?F n \<or> int n = max_retries - 1 \<or> \<not> ?S n"
    by blast
  have stop: "fst (execute_groups (session table_name batch_num n) table_name
                (group_by_columns batch_data)) = None
          \<or> int n = max_retries - 1 \<or> sleep (retry_delay * real (n + 1)) \<noteq> None"
    using n(3) by blast
  have before: "\<forall>a < n. ?F a \<and> ?S a" using n(2) by simp
  have le: "0 \<le> n" by simp
  note run = insert_attempts_run[where k = 0 and n = n and M = max_retries and session = session
      and t = table_name and bn = batch_num and b = batch_data and d = retry_delay and sleep = sleep
      and st = "\<lparr>local_successful = 0, local_failed = 0, local_errors = [], effects = [], raised = None\<rparr>",
      OF le n(1) n(2) stop]
  show ?thesis
    unfolding execute_table_batch_def run
    using n(1) before stop by (intro exI[of _ n] conjI) simp_all
qed

lemma execute_table_batch_no_attempt:
  assumes "max_retries \<le> 0"
  shows "execute_table_batch sleep session retry_delay max_retries table_name batch_data batch_num
           = \<lparr>local_successful = 0, local_failed = 0, local_errors = [], effects = [], raised = None\<rparr>"
  using assms by (simp add: execute_table_batch_def)

lemma delete_attempts_run:
  fixes session :: "('v, 'r) delete_session"
  assumes "k \<le> n" "n < nat M"
    and "\<forall>a. k \<le> a \<and> a < n \<longrightarrow>
           fst (delete_attempt (session bn a) t b) \<noteq> None \<and> sleep (d * real (a + 1)) = None"
    and "fst (delete_attempt (session bn n) t b) = None
           \<or> int n = M - 1 \<or> sleep (d * real (n + 1)) \<noteq> None"
  shows "delete_attempts sleep session d M t b bn [k..<nat M] tr =
     ((if fst (delete_attempt (session bn n) t b) = None then Inr (length b, 0)
       else if int n = M - 1 then Inr (0, length b)
       else Inl (the (sleep (d * real (n + 1))))),
      tr @ concat (map (\<lambda>a. snd (delete_attempt (session bn a) t b)
                             @ [LogError (BatchError t bn (a + 1) (the (fst (delete_attempt (session bn a) t b)))),
                                Sleep (d * real (a + 1))])
                       [k..<n])
         @ snd (delete_attempt (session bn n) t b)
         @ (if fst (delete_attempt (session bn n) t b) = None then []
            else [LogError (BatchError t bn (n + 1) (the (fst (delete_attempt (session bn n) t b))))]))"
  using assms
proof (induction "n - k" arbitrary: k tr)
  case 0
  then have kn: "k = n" by simp
  have up: "[n..<nat M] = n # [Suc n..<nat M]"
    using "0.prems"(2) by (simp add: upt_conv_Cons)
  obtain r tr1 where body: "delete_attempt (session bn n) t b = (r, tr1)"
    by (cases "delete_attempt (session bn n) t b")
  show ?case
  proof (cases r)
    case None
    then show ?thesis unfolding kn up using body by simp
  next
    case (Some e)
    show ?thesis
    proof (cases "int n = M - 1")
      case True
      then show ?thesis unfolding kn up using body Some by (simp add: Let_def)
    next
      case False
      then obtain err where "sleep (d * real (n + 1)) = Some err"
        using "0.prems"(4) body Some by auto
      then show ?thesis unfolding kn up using body Some False by (simp add: Let_def)
    qed
  qed
next
  case (Suc m)
  then have lt: "k < n" by simp
  have up: "[k..<nat M] = k # [Suc k..<nat M]"
    using lt Suc.prems(2) by (simp add: upt_conv_Cons)
  have upn: "[k..<n] = k # [Suc k..<n]"
    using lt by (simp add: upt_conv_Cons)
  have ne: "int k \<noteq> M - 1" using lt Suc.prems(2) by linarith
  obtain e tr1 where body: "delete_attempt (session bn k) t b = (Some e, tr1)"
    using Suc.prems(3) lt by (metis le_refl not_None_eq prod.collapse)
  have sl: "sleep (d * real (k + 1)) = None" using Suc.prems(3) lt by simp
  define tr' where "tr' = tr @ tr1 @ [LogError (BatchError t bn (k + 1) e), Sleep (d * real (k + 1))]"
  have step: "delete_attempts sleep session d M t b bn [k..<nat M] tr
              = delete_attempts sleep session d M t b bn [Suc k..<nat M] tr'"
    unfolding up tr'_def using body ne sl by (simp add: Let_def)
  have m: "m = n - Suc k" using Suc.hyps(2) by simp
  have le: "Suc k \<le> n" using lt by simp
  have rest: "\<forall>a. Suc k \<le> a \<and> a < n \<longrightarrow>
           fst (delete_attempt (session bn a) t b) \<noteq> None \<and> sleep (d * real (a + 1)) = None"
    using Suc.prems(3) by simp
  show ?case
    unfolding step Suc.hyps(1)[OF m le Suc.prems(2) rest Suc.prems(4)] upn
    using body by (simp add: tr'_def)
qed

lemma execute_delete_batch_run:
  fixes session :: "('v, 'r) delete_session"
  assumes "0 < max_retries"
  shows "\<exists>n < nat max_retries.
     (\<forall>a < n. fst (delete_attempt (session batch_num a) table_name rows_batch) \<noteq> None
              \<and> sleep (retry_delay * real (a + 1)) = None)
     \<and> (fst (delete_attempt (session batch_num n) table_name rows_batch) = None
          \<or> int n = max_retries - 1 \<or> sleep (retry_delay * real (n + 1)) \<noteq> None)
     \<and> execute_delete_batch sleep session retry_delay max_retries table_name rows_batch batch_num =
       ((if fst (delete_attempt (session batch_num n) table_name rows_batch) = None
         then Inr (length rows_batch, 0)
         else if int n = max_retries - 1 then Inr (0, length rows_batch)
         else Inl (the (sleep (retry_delay * real (n + 1))))),
        concat (map (\<lambda>a. snd (delete_attempt (session batch_num a) table_name rows_batch)
                          @ [LogError (BatchError table_name batch_num (a + 1)
                                         (the (fst (delete_attempt (session batch_num a) table_name rows_batch)))),
                             Sleep (retry_delay * real (a + 1))])
                    [0..<n])
        @ snd (delete_attempt (session batch_num n) table_name rows_batch)
        @ (if fst (delete_attempt (session batch_num n) table_name rows_batch) = None then []
           else [LogError (BatchError table_name batch_num (n + 1)
                             (the (fst (delete_attempt (session batch_num n) table_name rows_batch))))]))"
proof -
  let ?F = "\<lambda>a. fst (delete_attempt (session batch_num a) table_name rows_batch) \<noteq> None"
  let ?S = "\<lambda>a. sleep (retry_delay * real (a + 1)) = None"
  have "0 < nat max_retries" using assms by simp
  from last_attempt_exists[OF this, of ?F ?S]
  obtain n where n: "n < nat max_retries" "\<forall>a. 0 \<le> a \<and> a < n \<longrightarrow> ?F a \<and> ?S a"
    "\<not> ?F n \<or> int n = max_retries - 1 \<or> \<not> ?S n"
    by blast
  have stop: "fst (delete_attempt (session batch_num n) table_name rows_batch) = None
          \<or> int n = max_retries - 1 \<or> sleep (retry_delay * real (n + 1)) \<noteq> None"
    using n(3) by blast
  have before: "\<forall>a < n. ?F a \<and> ?S a" using n(2) by simp
  have le: "0 \<le> n" by simp
  note run = delete_attempts_run[where k = 0 and n = n and M = max_retries and session = session
      and t = table_name and bn = batch_num and b = rows_batch and d = retry_delay and sleep = sleep
      and tr = "[]", OF le n(1) n(2) stop]
  show ?thesis
    unfolding execute_delete_batch_def run
    using n(1) before stop by (intro exI[of _ n] conjI) simp_all
qed

lemma execute_delete_batch_no_attempt:
  assumes "max_retries \<le> 0"
  shows "execute_delete_batch sleep session retry_delay max_retries table_name rows_batch batch_num
           = (Inr (0, length rows_batch), [])"
  using assms by (simp add: execute_delete_batch_def)

subsection \<open>Column groups and the attempts of the insert worker\<close>

lemma fill_batch_group:
  fixes ex :: "('v, 'r) request \<Rightarrow> string option"
  assumes "\<forall>r \<in> set rs. columns_key r = k"
  shows "if \<forall>r \<in> set rs. ex (AddInsert t k (map (\<lambda>c. the (map_of r c)) k)) = None
         then fill_batch ex t k rs = Inr (map (\<lambda>r. map (\<lambda>c. the (map_of r c)) k) rs)
         else \<exists>e. fill_batch ex t k rs = Inl e"
  using assms
proof (induction rs)
  case Nil
  then show ?case by simp
next
  case (Cons r rs)
  have v: "values_of k r = Some (map (\<lambda>c. the (map_of r c)) k)"
    using Cons.prems by (simp add: values_of_columns_key)
  have rest: "\<forall>r \<in> set rs. columns_key r = k" using Cons.prems by simp
  show ?case
  proof (cases "ex (AddInsert t k (map (\<lambda>c. the (map_of r c)) k))")
    case (Some e)
    then show ?thesis by (simp add: v)
  next
    case None
    show ?thesis
    proof (cases "\<forall>r \<in> set rs. ex (AddInsert t k (map (\<lambda>c. the (map_of r c)) k)) = None")
      case True
      have "fill_batch ex t k rs = Inr (map (\<lambda>r. map (\<lambda>c. the (map_of r c)) k) rs)"
        using Cons.IH[OF rest] unfolding if_P[OF True] .
      then show ?thesis using None True by (simp add: v)
    next
      case False
      have "\<exists>e. fill_batch ex t k rs = Inl e"
        using Cons.IH[OF rest] unfolding if_not_P[OF False] .
      then obtain e where "fill_batch ex t k rs = Inl e" ..
      then show ?thesis using None False by (simp add: v)
    qed
  qed
qed

lemma fill_batch_rows:
  fixes ex :: "('v, 'r) request \<Rightarrow> string option"
  assumes "\<forall>r \<in> set rs. columns_key r = k" "fill_batch ex t k rs = Inr rows"
  shows "rows = map (\<lambda>r. map (\<lambda>c. the (map_of r c)) k) rs"
proof (cases "\<forall>r \<in> set rs. ex (AddInsert t k (map (\<lambda>c. the (map_of r c)) k)) = None")
  case True
  have "fill_batch ex t k rs = Inr (map (\<lambda>r. map (\<lambda>c. the (map_of r c)) k) rs)"
    using fill_batch_group[OF assms(1), of ex t] unfolding if_P[OF True] .
  then show ?thesis using assms(2) by simp
next
  case False
  have "\<exists>e. fill_batch ex t k rs = Inl e"
    using fill_batch_group[OF assms(1), of ex t] unfolding if_not_P[OF False] .
  then show ?thesis using assms(2) by auto
qed

lemma well_keyed_group_by_columns: "well_keyed (group_by_columns batch_data)"
  unfolding well_keyed_def group_by_columns_def
  by (auto dest!: group_by_members)

lemma execute_groups_returns:
  fixes ex :: "('v, 'r) request \<Rightarrow> string option"
  assumes "\<forall>r \<in> set rs. columns_key r = k" "group_returns ex t (k, rs)"
  shows "execute_groups ex t ((k, rs) # groups)
         = (fst (execute_groups ex t groups),
            Execute (insert_statement t (k, rs)) # snd (execute_groups ex t groups))"
proof -
  have p: "ex (Prepare t k) = None"
    and a: "\<forall>r \<in> set rs. ex (AddInsert t k (map (\<lambda>c. the (map_of r c)) k)) = None"
    and r: "ex (Run (insert_statement t (k, rs))) = None"
    using assms(2) by (simp_all add: group_returns_def group_runs_def)
  have f: "fill_batch ex t k rs = Inr (map (\<lambda>r. map (\<lambda>c. the (map_of r c)) k) rs)"
    using fill_batch_group[OF assms(1), of ex t] unfolding if_P[OF a] .
  show ?thesis
    using p r by (simp add: f insert_statement_def split: prod.splits)
qed

lemma execute_groups_raises:
  fixes ex :: "('v, 'r) request \<Rightarrow> string option"
  assumes "\<forall>r \<in> set rs. columns_key r = k" "group_runs ex t (k, rs)" "\<not> group_returns ex t (k, rs)"
  shows "\<exists>e. execute_groups ex t ((k, rs) # groups) = (Some e, [Execute (insert_statement t (k, rs))])"
proof -
  have p: "ex (Prepare t k) = None"
    and a: "\<forall>r \<in> set rs. ex (AddInsert t k (map (\<lambda>c. the (map_of r c)) k)) = None"
    using assms(2) by (simp_all add: group_runs_def)
  obtain e where r: "ex (Run (insert_statement t (k, rs))) = Some e"
    using assms(2,3) by (auto simp: group_returns_def)
  have f: "fill_batch ex t k rs = Inr (map (\<lambda>r. map (\<lambda>c. the (map_of r c)) k) rs)"
    using fill_batch_group[OF assms(1), of ex t] unfolding if_P[OF a] .
  show ?thesis
    using p r by (simp add: f insert_statement_def)
qed

lemma execute_groups_not_run:
  fixes ex :: "('v, 'r) request \<Rightarrow> string option"
  assumes "\<forall>r \<in> set rs. columns_key r = k" "\<not> group_runs ex t (k, rs)"
  shows "\<exists>e. execute_groups ex t ((k, rs) # groups) = (Some e, [])"
proof (cases "ex (Prepare t k)")
  case (Some e)
  then show ?thesis by simp
next
  case None
  then have no: "\<not> (\<forall>r \<in> set rs. ex (AddInsert t k (map (\<lambda>c. the (map_of r c)) k)) = None)"
    using assms(2) by (simp add: group_runs_def)
  have "\<exists>e. fill_batch ex t k rs = Inl e"
    using fill_batch_group[OF assms(1), of ex t] unfolding if_not_P[OF no] .
  then obtain e where "fill_batch ex t k rs = Inl e" ..
  then show ?thesis using None by simp
qed

lemma execute_groups_ok_iff:
  fixes ex :: "('v, 'r) request \<Rightarrow> string option"
  assumes "well_keyed groups"
  shows "fst (execute_groups ex t groups) = None \<longleftrightarrow> (\<forall>g \<in> set groups. group_returns ex t g)"
  using assms
proof (induction groups)
  case Nil
  then show ?case by simp
next
  case (Cons g groups)
  obtain k rs where g: "g = (k, rs)" by (cases g)
  have k: "\<forall>r \<in> set rs. columns_key r = k" and w: "well_keyed groups"
    using Cons.prems by (simp_all add: well_keyed_def g)
  consider "group_returns ex t (k, rs)"
    | "\<not> group_returns ex t (k, rs)" "group_runs ex t (k, rs)"
    | "\<not> group_returns ex t (k, rs)" "\<not> group_runs ex t (k, rs)" by blast
  then show ?case
  proof cases
    case 1
    then show ?thesis
      unfolding g execute_groups_returns[OF k 1] using Cons.IH[OF w] by simp
  next
    case 2
    then obtain e where "execute_groups ex t ((k, rs) # groups)
                         = (Some e, [Execute (insert_statement t (k, rs))])"
      using execute_groups_raises[OF k 2(2) 2(1)] by blast
    then show ?thesis unfolding g using 2(1) by simp
  next
    case 3
    then obtain e where "execute_groups ex t ((k, rs) # groups) = (Some e, [])"
      using execute_groups_not_run[OF k 3(2)] by blast
    then show ?thesis unfolding g using 3(1) by simp
  qed
qed

lemma sent_groups_Nil: "sent_groups ex t [] = []"
  by (simp add: sent_groups_def)

lemma sent_groups_Cons:
  "sent_groups ex t (g # groups) =
     (if group_returns ex t g then g # sent_groups ex t groups
      else if group_runs ex t g then [g] else [])"
  by (simp add: sent_groups_def)

lemma execute_groups_sent:
  fixes ex :: "('v, 'r) request \<Rightarrow> string option"
  assumes "well_keyed groups"
  shows "snd (execute_groups ex t groups)
         = map (\<lambda>g. Execute (insert_statement t g)) (sent_groups ex t groups)"
  using assms
proof (induction groups)
  case Nil
  then show ?case by (simp add: sent_groups_Nil)
next
  case (Cons g groups)
  obtain k rs where g: "g = (k, rs)" by (cases g)
  have k: "\<forall>r \<in> set rs. columns_key r = k" and w: "well_keyed groups"
    using Cons.prems by (simp_all add: well_keyed_def g)
  consider "group_returns ex t (k, rs)"
    | "\<not> group_returns ex t (k, rs)" "group_runs ex t (k, rs)"
    | "\<not> group_returns ex t (k, rs)" "\<not> group_runs ex t (k, rs)" by blast
  then show ?case
  proof cases
    case 1
    then show ?thesis
      unfolding g execute_groups_returns[OF k 1] sent_groups_Cons using Cons.IH[OF w] by simp
  next
    case 2
    then obtain e where "execute_groups ex t ((k, rs) # groups)
                         = (Some e, [Execute (insert_statement t (k, rs))])"
      using execute_groups_raises[OF k 2(2) 2(1)] by blast
    then show ?thesis unfolding g sent_groups_Cons using 2 by simp
  next
    case 3
    then obtain e where "execute_groups ex t ((k, rs) # groups) = (Some e, [])"
      using execute_groups_not_run[OF k 3(2)] by blast
    then show ?thesis unfolding g sent_groups_Cons using 3 by simp
  qed
qed

lemma sent_groups_all:
  "\<forall>g \<in> set groups. group_returns ex t g \<Longrightarrow> sent_groups ex t groups = groups"
  by (induction groups) (simp_all add: sent_groups_Nil sent_groups_Cons)

lemma sent_groups_prefix: "\<exists>n \<le> length groups. sent_groups ex t groups = take n groups"
proof (induction groups)
  case Nil
  then show ?case by (simp add: sent_groups_Nil)
next
  case (Cons g groups)
  obtain n where n: "n \<le> length groups" "sent_groups ex t groups = take n groups"
    using Cons.IH by blast
  consider "group_returns ex t g" | "\<not> group_returns ex t g" "group_runs ex t g"
    | "\<not> group_returns ex t g" "\<not> group_runs ex t g" by blast
  then show ?case
  proof cases
    case 1
    then have "sent_groups ex t (g # groups) = take (Suc n) (g # groups)"
      by (simp add: sent_groups_Cons n(2))
    then show ?thesis using n(1) by (metis Suc_le_mono length_Cons)
  next
    case 2
    then have "sent_groups ex t (g # groups) = take (Suc 0) (g # groups)"
      by (simp add: sent_groups_Cons)
    then show ?thesis by (metis Suc_leI length_Cons zero_less_Suc)
  next
    case 3
    then have "sent_groups ex t (g # groups) = take 0 (g # groups)"
      by (simp add: sent_groups_Cons)
    then show ?thesis by (metis le0)
  qed
qed

lemma sleeps_execute_groups: "sleeps (snd (execute_groups ex t groups)) = []"
  by (induction groups) (auto split: sum.splits option.splits prod.splits)

lemma logged_errors_execute_groups: "logged_errors (snd (execute_groups ex t groups)) = []"
  by (induction groups) (auto split: sum.splits option.splits prod.splits)

lemma insert_attempts_each_count:
  assumes "local_successful st \<in> {0, length b}" "local_failed st \<in> {0, length b}"
  shows "local_successful (insert_attempts sleep session d M t b bn attempts st) \<in> {0, length b}
       \<and> local_failed (insert_attempts sleep session d M t b bn attempts st) \<in> {0, length b}"
  using assms
  by (induction attempts arbitrary: st) (auto simp: Let_def split: prod.splits option.splits)

lemma two_groups:
  assumes "r1 \<in> set batch_data" "r2 \<in> set batch_data" "columns_key r1 \<noteq> columns_key r2"
  shows "2 \<le> length (group_by_columns batch_data)"
proof -
  have "{columns_key r1, columns_key r2} \<subseteq> columns_key ` set batch_data" using assms(1,2) by auto
  then have "card {columns_key r1, columns_key r2} \<le> card (columns_key ` set batch_data)"
    by (intro card_mono) simp_all
  then show ?thesis using assms(3) by (simp add: group_by_columns_def length_group_by)
qed

subsection \<open>Retries and backoff\<close>

lemma sleeps_concat: "sleeps (concat xss) = concat (map sleeps xss)"
  by (induction xss) (simp_all add: sleeps_append)

lemma executed_concat: "executed (concat xss) = concat (map executed xss)"
  by (induction xss) (simp_all add: executed_append)

lemma logged_errors_concat: "logged_errors (concat xss) = concat (map logged_errors xss)"
  by (induction xss) (simp_all add: logged_errors_append)

lemma executed_backoff: "executed (if c then [] else [Sleep x]) = []"
  by simp

lemma logged_errors_backoff: "logged_errors (if c then [] else [Sleep x]) = []"
  by simp

lemma sleeps_backoff: "sleeps (if c then [] else [Sleep x]) = (if c then [] else [x])"
  by simp

lemma concat_map_singleton: "concat (map (\<lambda>a. [f a]) xs) = map f xs"
  by (induction xs) simp_all

lemma attempt_numbers: "map (\<lambda>a. Suc a) [0..<n] = [1..<n + 1]"
  using map_Suc_upt[of 0 n] by (simp del: upt_Suc)

lemma backoff_delays:
  assumes "0 < M"
  shows "concat (map (\<lambda>a. if int a = M - 1 then [] else [d * real (a + 1)]) [0..<nat M])
         = map (\<lambda>k. d * real k) [1..<nat M]"
proof -
  obtain n where n: "nat M = Suc n" using assms by (metis Suc_pred zero_less_nat_eq)
  then have M: "M - 1 = int n" using assms by linarith
  have "concat (map (\<lambda>a. if int a = M - 1 then [] else [d * real (a + 1)]) [0..<n])
        = concat (map (\<lambda>a. [d * real (a + 1)]) [0..<n])"
    by (rule arg_cong[where f = concat], rule map_cong) (simp_all add: M)
  also have "\<dots> = map (\<lambda>a. d * real (a + 1)) [0..<n]" by (rule concat_map_singleton)
  also have "\<dots> = map (\<lambda>k. d * real k) (map Suc [0..<n])" by (simp add: comp_def)
  also have "\<dots> = map (\<lambda>k. d * real k) [1..<Suc n]" by (simp only: map_Suc_upt One_nat_def)
  finally show ?thesis by (simp add: n M)
qed

lemma backoff_increasing:
  assumes "0 < d"
  shows "sorted_wrt (<) (map (\<lambda>k. d * real k) [1..<n])"
proof -
  have "sorted_wrt (\<lambda>x y. d * real x < d * real y) [1..<n]"
    by (rule sorted_wrt_mono_rel[of _ "(<)"]) (use assms in simp_all)
  then show ?thesis by (simp add: sorted_wrt_map)
qed

lemma group_by_columns_nonempty: "batch_data \<noteq> [] \<Longrightarrow> group_by_columns batch_data \<noteq> []"
proof -
  assume "batch_data \<noteq> []"
  then have "card (columns_key ` set batch_data) \<noteq> 0" by simp
  then have "length (group_by_columns batch_data) \<noteq> 0"
    by (simp add: group_by_columns_def length_group_by)
  then show ?thesis by auto
qed

lemma execute_table_batch_all_fail:
  fixes session :: "('v, 'r) insert_session"
  assumes "0 < max_retries"
    and "\<forall>a < nat max_retries.
           fst (execute_groups (session table_name batch_num a) table_name
                  (group_by_columns batch_data)) \<noteq> None"
    and "\<forall>a. a + 1 < nat max_retries \<longrightarrow> sleep (retry_delay * real (a + 1)) = None"
  shows "execute_table_batch sleep session retry_delay max_retries table_name batch_data batch_num =
       \<lparr>local_successful = 0,
         local_failed = length batch_data,
         local_errors =
           map (\<lambda>a. BatchError table_name batch_num (a + 1)
                      (the (fst (execute_groups (session table_name batch_num a) table_name
                                   (group_by_columns batch_data)))))
               [0..<nat max_retries],
         effects =
           concat (map (\<lambda>a. snd (execute_groups (session table_name batch_num a) table_name
                                    (group_by_columns batch_data))
                             @ [Sleep (retry_delay * real (a + 1))])
                       [0..<nat max_retries - 1])
           @ snd (execute_groups (session table_name batch_num (nat max_retries - 1)) table_name
                    (group_by_columns batch_data)),
         raised = None\<rparr>"
proof -
  let ?n = "nat max_retries - 1"
  have lt: "?n < nat max_retries" using assms(1) by simp
  have last: "int ?n = max_retries - 1" using assms(1) by simp
  have n1: "?n + 1 = nat max_retries" using assms(1) by simp
  obtain e where fails: "fst (execute_groups (session table_name batch_num ?n) table_name
                  (group_by_columns batch_data)) = Some e"
    using assms(2) lt by (metis not_None_eq)
  have before: "\<forall>a. 0 \<le> a \<and> a < ?n \<longrightarrow>
           fst (execute_groups (session table_name batch_num a) table_name
                  (group_by_columns batch_data)) \<noteq> None
           \<and> sleep (retry_delay * real (a + 1)) = None"
    using assms(2,3) by simp
  have stop: "fst (execute_groups (session table_name batch_num ?n) table_name
                (group_by_columns batch_data)) = None
          \<or> int ?n = max_retries - 1 \<or> sleep (retry_delay * real (?n + 1)) \<noteq> None"
    using last by blast
  have le: "0 \<le> ?n" by simp
  note run = insert_attempts_run[where k = 0 and n = ?n and M = max_retries and session = session
      and t = table_name and bn = batch_num and b = batch_data and d = retry_delay and sleep = sleep
      and st = "\<lparr>local_successful = 0, local_failed = 0, local_errors = [], effects = [], raised = None\<rparr>",
      OF le lt before stop]
  show ?thesis
    unfolding execute_table_batch_def run using fails last n1 by simp
qed

lemma sleeps_attempts:
  "sleeps (concat (map (\<lambda>a. snd (execute_groups (ex a) t groups) @ [Sleep (f a)]) attempts))
   = map f attempts"
  by (induction attempts) (simp_all add: sleeps_append sleeps_execute_groups)

lemma delays_of_attempts: "map (\<lambda>a. d * real (a + 1)) [0..<n] = map (\<lambda>k. d * real k) [1..<n + 1]"
proof -
  have "map (\<lambda>a. d * real (a + 1)) [0..<n] = map (\<lambda>k. d * real k) (map Suc [0..<n])"
    by (simp add: comp_def)
  also have "\<dots> = map (\<lambda>k. d * real k) [1..<n + 1]"
    using attempt_numbers[of n] by simp
  finally show ?thesis .
qed

lemma insert_worker_retries:
  fixes session :: "('v, 'r) insert_session"
  assumes "0 < max_retries"
    and "\<forall>a < nat max_retries.
           fst (execute_groups (session table_name batch_num a) table_name
                  (group_by_columns batch_data)) \<noteq> None"
    and "\<forall>a. a + 1 < nat max_retries \<longrightarrow> sleep (retry_delay * real (a + 1)) = None"
  shows "map attempt_number
           (local_errors (execute_table_batch sleep session retry_delay max_retries table_name batch_data batch_num))
         = [1..<nat max_retries + 1]
       \<and> executed
           (effects (execute_table_batch sleep session retry_delay max_retries table_name batch_data batch_num))
         = concat (map (\<lambda>a. executed (snd (execute_groups (session table_name batch_num a) table_name
                                              (group_by_columns batch_data))))
                       [0..<nat max_retries])
       \<and> sleeps (effects (execute_table_batch sleep session retry_delay max_retries table_name batch_data batch_num))
         = map (\<lambda>k. retry_delay * real k) [1..<nat max_retries]
       \<and> local_successful (execute_table_batch sleep session retry_delay max_retries table_name batch_data batch_num) = 0
       \<and> local_failed (execute_table_batch sleep session retry_delay max_retries table_name batch_data batch_num)
         = length batch_data
       \<and> raised (execute_table_batch sleep session retry_delay max_retries table_name batch_data batch_num) = None"
proof -
  note af = execute_table_batch_all_fail[where session = session and table_name = table_name
      and batch_num = batch_num and batch_data = batch_data and sleep = sleep
      and retry_delay = retry_delay and max_retries = max_retries, OF assms]
  have n1: "nat max_retries - 1 + 1 = nat max_retries" using assms(1) by simp
  have up: "[0..<nat max_retries] = [0..<nat max_retries - 1] @ [nat max_retries - 1]"
    using assms(1) by (metis n1 add.commute plus_1_eq_Suc upt_Suc_append zero_le)
  have 1: "map attempt_number
           (local_errors (execute_table_batch sleep session retry_delay max_retries table_name batch_data batch_num))
         = [1..<nat max_retries + 1]"
    unfolding af using attempt_numbers[of "nat max_retries"] by (simp add: comp_def del: upt_Suc)
  have 2: "executed
           (effects (execute_table_batch sleep session retry_delay max_retries table_name batch_data batch_num))
         = concat (map (\<lambda>a. executed (snd (execute_groups (session table_name batch_num a) table_name
                                              (group_by_columns batch_data))))
                       [0..<nat max_retries])"
    unfolding af by (subst (2) up) (simp add: executed_append executed_concat comp_def del: upt_Suc)
  have "sleeps (effects (execute_table_batch sleep session retry_delay max_retries table_name batch_data batch_num))
         = map (\<lambda>a. retry_delay * real (a + 1)) [0..<nat max_retries - 1]"
    unfolding af
    by (simp only: batch_result.select_convs sleeps_append sleeps_attempts sleeps_execute_groups
          append_Nil2)
  also have "\<dots> = map (\<lambda>k. retry_delay * real k) [1..<nat max_retries - 1 + 1]"
    by (rule delays_of_attempts)
  finally have 3: "sleeps (effects (execute_table_batch sleep session retry_delay max_retries table_name batch_data batch_num))
         = map (\<lambda>k. retry_delay * real k) [1..<nat max_retries]"
    unfolding n1 .
  show ?thesis using 1 2 3 unfolding af by simp
qed

lemma insert_worker_exhausted:
  fixes session :: "('v, 'r) insert_session"
  assumes "0 < max_retries"
    and "\<forall>a < nat max_retries.
           fst (execute_groups (session (fst task) (snd (snd task)) a) (fst task)
                  (group_by_columns (fst (snd task)))) \<noteq> None"
    and "\<forall>a. a + 1 < nat max_retries \<longrightarrow> sleep (retry_delay * real (a + 1)) = None"
  shows "local_successful (insert_worker sleep session retry_delay max_retries task) = 0
       \<and> local_failed (insert_worker sleep session retry_delay max_retries task) = length (fst (snd task))
       \<and> local_errors (insert_worker sleep session retry_delay max_retries task) \<noteq> []
       \<and> last (local_errors (insert_worker sleep session retry_delay max_retries task))
           = BatchError (fst task) (snd (snd task)) (nat max_retries)
               (the (fst (execute_groups (session (fst task) (snd (snd task)) (nat max_retries - 1))
                            (fst task) (group_by_columns (fst (snd task))))))"
proof -
  note af = execute_table_batch_all_fail[where session = session and table_name = "fst task"
      and batch_num = "snd (snd task)" and batch_data = "fst (snd task)" and sleep = sleep
      and retry_delay = retry_delay and max_retries = max_retries, OF assms]
  obtain n where n: "nat max_retries = Suc n" using assms(1) by (metis Suc_pred zero_less_nat_eq)
  have up: "[0..<nat max_retries] = [0..<n] @ [n]" unfolding n by simp
  show ?thesis
    unfolding insert_worker_def af by (simp add: up n)
qed

lemma execute_table_batch_counts:
  fixes session :: "('v, 'r) insert_session"
  assumes "0 < max_retries"
    and "raised (execute_table_batch sleep session retry_delay max_retries table_name batch_data batch_num)
           = None"
  shows "(local_successful (execute_table_batch sleep session retry_delay max_retries table_name batch_data batch_num)
            = length batch_data \<and>
          local_failed (execute_table_batch sleep session retry_delay max_retries table_name batch_data batch_num) = 0)
       \<or> (local_successful (execute_table_batch sleep session retry_delay max_retries table_name batch_data batch_num) = 0 \<and>
          local_failed (execute_table_batch sleep session retry_delay max_retries table_name batch_data batch_num)
            = length batch_data)"
proof -
  from execute_table_batch_run[OF assms(1), of session table_name batch_num batch_data sleep retry_delay]
  obtain n res where n:
    "fst (execute_groups (session table_name batch_num n) table_name
                (group_by_columns batch_data)) = None
          \<or> int n = max_retries - 1 \<or> sleep (retry_delay * real (n + 1)) \<noteq> None"
    "execute_table_batch sleep session retry_delay max_retries table_name batch_data batch_num = res"
    "local_successful res =
           (if fst (execute_groups (session table_name batch_num n) table_name
                      (group_by_columns batch_data)) = None
            then length batch_data else 0)"
    "local_failed res =
           (if fst (execute_groups (session table_name batch_num n) table_name
                      (group_by_columns batch_data)) \<noteq> None \<and> int n = max_retries - 1
            then length batch_data else 0)"
    "raised res =
           (if fst (execute_groups (session table_name batch_num n) table_name
                      (group_by_columns batch_data)) = None \<or> int n = max_retries - 1
            then None else sleep (retry_delay * real (n + 1)))"
    by force
  show ?thesis using n(1,3,4,5) assms(2) unfolding n(2) by (auto split: if_splits)
qed

lemma insert_worker_returns:
  fixes session :: "('v, 'r) insert_session"
  assumes "\<forall>a. a + 1 < nat max_retries \<longrightarrow> sleep (retry_delay * real (a + 1)) = None"
  shows "raised (insert_worker sleep session retry_delay max_retries task) = None"
proof (cases "0 < max_retries")
  case False
  then show ?thesis by (simp add: insert_worker_def execute_table_batch_def)
next
  case True
  from execute_table_batch_run[OF True, of session "fst task" "snd (snd task)" "fst (snd task)" sleep retry_delay]
  obtain n res where n: "n < nat max_retries"
    "execute_table_batch sleep session retry_delay max_retries (fst task) (fst (snd task)) (snd (snd task)) = res"
    "raised res =
           (if fst (execute_groups (session (fst task) (snd (snd task)) n) (fst task)
                      (group_by_columns (fst (snd task)))) = None \<or> int n = max_retries - 1
            then None else sleep (retry_delay * real (n + 1)))"
    by force
  have "int n \<noteq> max_retries - 1 \<Longrightarrow> n + 1 < nat max_retries" using n(1) by linarith
  then show ?thesis unfolding insert_worker_def n(2) n(3) using assms by auto
qed

lemma execute_delete_batch_all_fail:
  fixes session :: "('v, 'r) delete_session"
  assumes "0 < max_retries"
    and "\<forall>a < nat max_retries. fst (delete_attempt (session batch_num a) table_name rows_batch) \<noteq> None"
    and "\<forall>a. a + 1 < nat max_retries \<longrightarrow> sleep (retry_delay * real (a + 1)) = None"
  shows "execute_delete_batch sleep session retry_delay max_retries table_name rows_batch batch_num =
       (Inr (0, length rows_batch),
        concat (map (\<lambda>a. snd (delete_attempt (session batch_num a) table_name rows_batch)
                          @ [LogError (BatchError table_name batch_num (a + 1)
                                         (the (fst (delete_attempt (session batch_num a) table_name rows_batch)))),
                             Sleep (retry_delay * real (a + 1))])
                    [0..<nat max_retries - 1])
        @ snd (delete_attempt (session batch_num (nat max_retries - 1)) table_name rows_batch)
        @ [LogError (BatchError table_name batch_num (nat max_retries)
                       (the (fst (delete_attempt (session batch_num (nat max_retries - 1))
                                    table_name rows_batch))))])"
proof -
  let ?n = "nat max_retries - 1"
  have lt: "?n < nat max_retries" using assms(1) by simp
  have last: "int ?n = max_retries - 1" using assms(1) by simp
  have n1: "?n + 1 = nat max_retries" using assms(1) by simp
  obtain e where fails: "fst (delete_attempt (session batch_num ?n) table_name rows_batch) = Some e"
    using assms(2) lt by (metis not_None_eq)
  have before: "\<forall>a. 0 \<le> a \<and> a < ?n \<longrightarrow>
           fst (delete_attempt (session batch_num a) table_name rows_batch) \<noteq> None
           \<and> sleep (retry_delay * real (a + 1)) = None"
    using assms(2,3) by simp
  have stop: "fst (delete_attempt (session batch_num ?n) table_name rows_batch) = None
          \<or> int ?n = max_retries - 1 \<or> sleep (retry_delay * real (?n + 1)) \<noteq> None"
    using last by blast
  have le: "0 \<le> ?n" by simp
  note run = delete_attempts_run[where k = 0 and n = ?n and M = max_retries and session = session
      and t = table_name and bn = batch_num and b = rows_batch and d = retry_delay and sleep = sleep
      and tr = "[]", OF le lt before stop]
  show ?thesis
    unfolding execute_delete_batch_def run using fails last n1 by simp
qed

lemma sleeps_delete_attempt: "sleeps (snd (delete_attempt ex t b)) = []"
  by (simp add: delete_attempt_def split: option.splits)

lemma logged_errors_delete_attempt: "logged_errors (snd (delete_attempt ex t b)) = []"
  by (simp add: delete_attempt_def split: option.splits)

lemma logged_errors_delete_attempts:
  "logged_errors (concat (map (\<lambda>a. snd (delete_attempt (ex a) t b) @ [LogError (err a), Sleep (f a)])
                              attempts))
   = map err attempts"
  by (induction attempts) (simp_all add: logged_errors_append logged_errors_delete_attempt)

lemma sleeps_delete_attempts:
  "sleeps (concat (map (\<lambda>a. snd (delete_attempt (ex a) t b) @ [LogError (err a), Sleep (f a)])
                       attempts))
   = map f attempts"
  by (induction attempts) (simp_all add: sleeps_append sleeps_delete_attempt)

lemma delete_worker_retries:
  fixes session :: "('v, 'r) delete_session"
  assumes "0 < max_retries"
    and "\<forall>a < nat max_retries. fst (delete_attempt (session batch_num a) table_name rows_batch) \<noteq> None"
    and "\<forall>a. a + 1 < nat max_retries \<longrightarrow> sleep (retry_delay * real (a + 1)) = None"
  shows "fst (execute_delete_batch sleep session retry_delay max_retries table_name rows_batch batch_num)
           = Inr (0, length rows_batch)
       \<and> map attempt_number (logged_errors
           (snd (execute_delete_batch sleep session retry_delay max_retries table_name rows_batch batch_num)))
         = [1..<nat max_retries + 1]
       \<and> sleeps (snd (execute_delete_batch sleep session retry_delay max_retries table_name rows_batch batch_num))
         = map (\<lambda>k. retry_delay * real k) [1..<nat max_retries]"
proof -
  note af = execute_delete_batch_all_fail[where session = session and table_name = table_name
      and batch_num = batch_num and rows_batch = rows_batch and sleep = sleep
      and retry_delay = retry_delay and max_retries = max_retries, OF assms]
  obtain n where n: "nat max_retries = Suc n" using assms(1) by (metis Suc_pred zero_less_nat_eq)
  have n1: "nat max_retries - 1 + 1 = nat max_retries" using assms(1) by simp
  have e: "logged_errors
           (snd (execute_delete_batch sleep session retry_delay max_retries table_name rows_batch batch_num))
         = map (\<lambda>a. BatchError table_name batch_num (a + 1)
                      (the (fst (delete_attempt (session batch_num a) table_name rows_batch))))
               [0..<nat max_retries - 1]
           @ [BatchError table_name batch_num (nat max_retries)
                (the (fst (delete_attempt (session batch_num (nat max_retries - 1)) table_name rows_batch)))]"
    unfolding af
    by (simp only: snd_conv logged_errors_append logged_errors_delete_attempts
          logged_errors_delete_attempt logged_errors.simps append_Nil)
  have 1: "map attempt_number (logged_errors
           (snd (execute_delete_batch sleep session retry_delay max_retries table_name rows_batch batch_num)))
         = [1..<nat max_retries + 1]"
    unfolding e n by (simp add: comp_def map_Suc_upt)
  have "sleeps (snd (execute_delete_batch sleep session retry_delay max_retries table_name rows_batch batch_num))
         = map (\<lambda>a. retry_delay * real (a + 1)) [0..<nat max_retries - 1]"
    unfolding af
    by (simp only: snd_conv sleeps_append sleeps_delete_attempts sleeps_delete_attempt
          sleeps.simps append_Nil2)
  also have "\<dots> = map (\<lambda>k. retry_delay * real k) [1..<nat max_retries - 1 + 1]"
    by (rule delays_of_attempts)
  finally have 2: "sleeps (snd (execute_delete_batch sleep session retry_delay max_retries table_name rows_batch batch_num))
         = map (\<lambda>k. retry_delay * real k) [1..<nat max_retries]"
    unfolding n1 .
  show ?thesis using 1 2 unfolding af by simp
qed

lemma delete_attempts_counts:
  "fst (delete_attempts sleep session d M t b bn attempts tr) = Inr (deleted, not_deleted)
   \<Longrightarrow> deleted + not_deleted = length b"
  by (induction attempts arbitrary: tr)
     (auto simp: Let_def split: option.splits if_splits prod.splits)

lemma execute_delete_batch_counts:
  "fst (execute_delete_batch sleep session retry_delay max_retries table_name rows_batch batch_num)
     = Inr (deleted, not_deleted)
   \<Longrightarrow> deleted + not_deleted = length rows_batch"
  unfolding execute_delete_batch_def by (rule delete_attempts_counts)

subsection \<open>Batches of a list\<close>

lemma filter_multiples_below:
  assumes "0 < n" "m \<le> n"
  shows "filter (\<lambda>i. i mod n = 0) [Suc 0..<m] = []"
  using assms by (auto simp: filter_empty_conv)

lemma range_step_shift:
  assumes "0 < n" "0 < L"
  shows "range_step L n = 0 # map (\<lambda>i. i + n) (range_step (L - n) n)"
proof (cases "n \<le> L")
  case True
  have split: "[0..<L] = 0 # [Suc 0..<n] @ [n..<L]"
  proof -
    have "[0..<L] = [0..<n] @ [n..<L]"
      using True by (metis le_add_diff_inverse upt_add_eq_append zero_le)
    moreover have "[0..<n] = 0 # [Suc 0..<n]"
      using assms(1) by (simp add: upt_conv_Cons)
    ultimately show ?thesis by simp
  qed
  have shift: "[n..<L] = map (\<lambda>i. i + n) [0..<L - n]"
    using True by (simp add: map_add_upt)
  have "filter (\<lambda>i. i mod n = 0) [n..<L] = map (\<lambda>i. i + n) (filter (\<lambda>i. i mod n = 0) [0..<L - n])"
    unfolding shift by (simp add: filter_map comp_def)
  then show ?thesis
    unfolding range_step_def split using filter_multiples_below[OF assms(1), of n]
    by simp
next
  case False
  then have "L - n = 0" by simp
  moreover have "[0..<L] = 0 # [Suc 0..<L]" using assms(2) by (simp add: upt_conv_Cons)
  ultimately show ?thesis
    unfolding range_step_def using filter_multiples_below[OF assms(1), of L] False
    by simp
qed

lemma range_step_Nil: "range_step 0 n = []"
  by (simp add: range_step_def)

lemma batches_of_Nil: "batches_of n [] = []"
  by (simp add: batches_of_def range_step_def)

lemma batches_of_rec:
  assumes "0 < n" "xs \<noteq> []"
  shows "batches_of n xs = take n xs # batches_of n (drop n xs)"
proof -
  have L: "0 < length xs" using assms(2) by simp
  have "slice xs (i + n) n = slice (drop n xs) i n" for i
    by (simp add: slice_def add.commute)
  then show ?thesis
    unfolding batches_of_def range_step_shift[OF assms(1) L]
    by (simp add: slice_def comp_def)
qed

lemma concat_batches_of: "0 < n \<Longrightarrow> concat (batches_of n xs) = xs"
proof (induction xs rule: length_induct)
  case (1 xs)
  show ?case
  proof (cases "xs = []")
    case True
    then show ?thesis by (simp add: batches_of_Nil)
  next
    case False
    then have "length (drop n xs) < length xs" using 1(2) by simp
    then have "concat (batches_of n (drop n xs)) = drop n xs" using 1 by blast
    then show ?thesis by (simp add: batches_of_rec[OF 1(2) False])
  qed
qed

lemma length_batches_of: "0 < n \<Longrightarrow> length (batches_of n xs) = (length xs + n - 1) div n"
proof (induction xs rule: length_induct)
  case (1 xs)
  show ?case
  proof (cases "xs = []")
    case True
    then show ?thesis using 1(2) by (simp add: batches_of_Nil)
  next
    case False
    then have "length (drop n xs) < length xs" using 1(2) by simp
    then have IH: "length (batches_of n (drop n xs)) = (length (drop n xs) + n - 1) div n" using 1 by blast
    show ?thesis
    proof (cases "n \<le> length xs")
      case True
      then have a: "length xs + n - 1 = (length xs - 1) + n" and b: "length xs - n + n - 1 = length xs - 1"
        using 1(2) by simp_all
      have "(length xs + n - 1) div n = Suc ((length xs - n + n - 1) div n)"
        unfolding a b using 1(2) by simp
      then show ?thesis using IH by (simp add: batches_of_rec[OF 1(2) False])
    next
      case F: False
      have a: "length xs + n - 1 = (length xs - 1) + n"
        using False by (cases xs) simp_all
      have "(length xs + n - 1) div n = 1"
        unfolding a using F 1(2) by simp
      then show ?thesis using F by (simp add: batches_of_rec[OF 1(2) False] batches_of_Nil)
    qed
  qed
qed

lemma batches_of_sizes:
  "0 < n \<Longrightarrow> b \<in> set (batches_of n xs) \<Longrightarrow> 0 < length b \<and> length b \<le> n"
proof (induction xs rule: length_induct)
  case (1 xs)
  show ?case
  proof (cases "xs = []")
    case True
    then show ?thesis using 1(3) by (simp add: batches_of_Nil)
  next
    case False
    then have "length (drop n xs) < length xs" using 1(2) by simp
    then have IH: "b \<in> set (batches_of n (drop n xs)) \<Longrightarrow> 0 < length b \<and> length b \<le> n"
      using 1(1,2) by blast
    show ?thesis using 1(2,3) False IH by (auto simp: batches_of_rec[OF 1(2) False])
  qed
qed

lemma batches_of_butlast_full:
  "0 < n \<Longrightarrow> b \<in> set (butlast (batches_of n xs)) \<Longrightarrow> length b = n"
proof (induction xs rule: length_induct)
  case (1 xs)
  show ?case
  proof (cases "xs = []")
    case True
    then show ?thesis using 1(3) by (simp add: batches_of_Nil)
  next
    case False
    then have lt: "length (drop n xs) < length xs" using 1(2) by simp
    show ?thesis
    proof (cases "drop n xs = []")
      case True
      then show ?thesis using 1(3) by (simp add: batches_of_rec[OF 1(2) False] batches_of_Nil)
    next
      case F: False
      then have ne: "batches_of n (drop n xs) \<noteq> []" using 1(2) by (simp add: batches_of_rec)
      have nl: "n < length xs" using F by simp
      have IH: "b \<in> set (butlast (batches_of n (drop n xs))) \<Longrightarrow> length b = n"
        using 1(1,2) lt by blast
      show ?thesis using 1(3) nl ne IH by (auto simp: batches_of_rec[OF 1(2) False])
    qed
  qed
qed

lemma cons_Suc_upt: "1 # map Suc [1..<k + 1] = [1..<Suc k + 1]"
proof -
  have "map Suc [1..<k + 1] = [Suc 1..<Suc (k + 1)]" by (rule map_Suc_upt)
  moreover have "[1..<Suc (k + 1)] = 1 # [Suc 1..<Suc (k + 1)]" by (rule upt_conv_Cons) simp
  ultimately show ?thesis by simp
qed

lemma range_step_div:
  "0 < n \<Longrightarrow> map (\<lambda>i. i div n + 1) (range_step L n) = [1..<length (range_step L n) + 1]"
proof (induction L arbitrary: n rule: less_induct)
  case (less L)
  show ?case
  proof (cases "L = 0")
    case True
    then show ?thesis by (simp add: range_step_Nil)
  next
    case False
    then have L: "0 < L" by simp
    have lt: "L - n < L" using less.prems L by simp
    have IH: "map (\<lambda>i. i div n + 1) (range_step (L - n) n) = [1..<length (range_step (L - n) n) + 1]"
      using less.IH[OF lt less.prems] .
    have "map (\<lambda>i. i div n + 1) (range_step L n)
          = 1 # map Suc (map (\<lambda>i. i div n + 1) (range_step (L - n) n))"
      unfolding range_step_shift[OF less.prems L] using less.prems by (simp add: comp_def)
    also have "\<dots> = 1 # map Suc [1..<length (range_step (L - n) n) + 1]" unfolding IH ..
    also have "\<dots> = [1..<Suc (length (range_step (L - n) n)) + 1]" by (rule cons_Suc_upt)
    finally show ?thesis
      unfolding range_step_shift[OF less.prems L] by (simp del: upt_Suc)
  qed
qed

lemma chunks_positive:
  assumes "0 < batch_size"
  shows "\<exists>cs. chunks batch_size rows = Inr cs
           \<and> map fst cs = batches_of (nat batch_size) rows
           \<and> map snd cs = [1..<length cs + 1]"
proof -
  let ?cs = "map (\<lambda>i. (slice rows i (nat batch_size), i div nat batch_size + 1))
                 (range_step (length rows) (nat batch_size))"
  have "chunks batch_size rows = Inr ?cs" using assms by (simp add: chunks_def)
  moreover have "map fst ?cs = batches_of (nat batch_size) rows"
    by (simp add: batches_of_def comp_def)
  moreover have "map snd ?cs = [1..<length ?cs + 1]"
    using range_step_div[of "nat batch_size" "length rows"] assms by (simp add: comp_def del: upt_Suc)
  ultimately show ?thesis by blast
qed

subsection \<open>The pages of \<^verbatim>\<open>process_table\<close>\<close>

lemma foldl_add: "foldl (\<lambda>a x. a + f x) (a :: nat) xs = a + sum_list (map f xs)"
  by (induction xs arbitrary: a) simp_all

lemma sum_list_perm:
  fixes f :: "'a \<Rightarrow> nat"
  assumes "mset xs = mset ys"
  shows "sum_list (map f xs) = sum_list (map f ys)"
proof -
  have "sum_list (map f xs) = sum_mset (mset (map f xs))" by (simp only: sum_mset_sum_list)
  also have "\<dots> = sum_mset (mset (map f ys))" using assms by simp
  also have "\<dots> = sum_list (map f ys)" by (simp only: sum_mset_sum_list)
  finally show ?thesis .
qed

lemma process_pages_step:
  assumes "0 < batch_size" "0 < concurrency" "rows \<noteq> []"
  shows "process_pages env batch_size concurrency retry_delay max_retries table_name n
           (ResultSet rows nxt) (tot, tr) =
         (let finished = batches_completed env
                (map (\<lambda>task. (task, delete_worker env retry_delay max_retries table_name task))
                     (page_tasks (nat batch_size) table_name (n, rows)));
              tot' = tot + sum_list (map (\<lambda>x. deleted_rows (fst (snd x))) finished);
              tr' = tr @ concat (map (\<lambda>x. snd (snd x)) finished)
          in (case nxt of
                NextReturns rs \<Rightarrow>
                  process_pages env batch_size concurrency retry_delay max_retries table_name (n + 1) rs
                    (tot', tr')
              | _ \<Rightarrow> (tot', tr')))"
proof -
  have f: "(\<lambda>tot (task, result, effs). tot + deleted_rows result) = (\<lambda>a x. a + deleted_rows (fst (snd x)))"
    by (auto simp: fun_eq_iff)
  have g: "(\<lambda>(task, result, effs). effs) = (\<lambda>x. snd (snd x))"
    by (auto simp: fun_eq_iff)
  show ?thesis
    using assms
    by (simp add: chunks_def thread_pool_def page_tasks_def delete_worker_def comp_def Let_def
          f g foldl_add split: paging.splits)
qed


lemma process_pages_result:
  assumes "0 < batch_size" "0 < concurrency"
    and "\<forall>futures. mset (batches_completed env futures) = mset futures"
  shows "fst (process_pages env batch_size concurrency retry_delay max_retries table_name n rs (tot, tr))
           = tot + sum_list (map (\<lambda>task. deleted_rows (fst (delete_worker env retry_delay max_retries table_name task)))
                       (concat (map (page_tasks (nat batch_size) table_name) (numbered_pages n rs))))
       \<and> set (snd (process_pages env batch_size concurrency retry_delay max_retries table_name n rs (tot, tr)))
           = set tr \<union>
             (\<Union>task \<in> set (concat (map (page_tasks (nat batch_size) table_name) (numbered_pages n rs))).
                 set (snd (delete_worker env retry_delay max_retries table_name task)))"
proof (induction n rs arbitrary: tot tr rule: numbered_pages.induct)
  case (1 n rows nxt)
  let ?W = "delete_worker env retry_delay max_retries table_name"
  let ?tasks = "page_tasks (nat batch_size) table_name (n, rows)"
  let ?futures = "map (\<lambda>task. (task, ?W task)) ?tasks"
  let ?finished = "batches_completed env ?futures"
  show ?case
  proof (cases "rows = []")
    case True
    then show ?thesis by simp
  next
    case False
    have perm: "mset ?finished = mset ?futures" using assms(3) by blast
    have sum: "sum_list (map (\<lambda>x. deleted_rows (fst (snd x))) ?finished)
               = sum_list (map (\<lambda>task. deleted_rows (fst (?W task))) ?tasks)"
      using sum_list_perm[OF perm, of "\<lambda>x. deleted_rows (fst (snd x))"] by (simp add: comp_def)
    have "set ?finished = set ?futures" using perm by (rule mset_eq_setD)
    then have effs: "set (concat (map (\<lambda>x. snd (snd x)) ?finished))
               = (\<Union>task \<in> set ?tasks. set (snd (?W task)))"
      by auto
    show ?thesis
    proof (cases nxt)
      case (NextReturns rs)
      note IH = "1.IH"[OF False NextReturns]
      show ?thesis
        unfolding process_pages_step[OF assms(1,2) False]
        using False NextReturns IH sum effs
        by (simp add: Let_def Un_assoc)
    next
      case NoMorePages
      show ?thesis
        unfolding process_pages_step[OF assms(1,2) False]
        using False NoMorePages sum effs
        by (simp add: Let_def)
    next
      case (NextRaises e)
      show ?thesis
        unfolding process_pages_step[OF assms(1,2) False]
        using False NextRaises sum effs
        by (simp add: Let_def)
    qed
  qed
qed

subsection \<open>The delete worker and the count of a table\<close>

lemma fill_delete_ok_iff:
  "fill_delete ex t b = None \<longleftrightarrow> (\<forall>row \<in> set b. ex (AddDelete t row) = None)"
  by (induction b) (auto split: option.splits)

lemma delete_attempt_ok_iff:
  "fst (delete_attempt ex t b) = None
   \<longleftrightarrow> (\<forall>row \<in> set b. ex (AddDelete t row) = None) \<and> ex (Run (DeleteBatch t b)) = None"
proof (cases "fill_delete ex t b")
  case None
  then show ?thesis using fill_delete_ok_iff[of ex t b] by (simp add: delete_attempt_def)
next
  case (Some e)
  then show ?thesis using fill_delete_ok_iff[of ex t b] by (simp add: delete_attempt_def)
qed

lemma executed_delete_attempt: "set (executed (snd (delete_attempt ex t b))) \<subseteq> {DeleteBatch t b}"
  by (simp add: delete_attempt_def split: option.splits)

lemma delete_attempts_executed:
  "set (executed (snd (delete_attempts sleep session d M t b bn attempts tr)))
     \<subseteq> set (executed tr) \<union> {DeleteBatch t b}"
proof (induction attempts arbitrary: tr)
  case Nil
  then show ?case by auto
next
  case (Cons a attempts)
  obtain r tr1 where body: "delete_attempt (session bn a) t b = (r, tr1)"
    by (cases "delete_attempt (session bn a) t b")
  have tr1: "set (executed tr1) \<subseteq> {DeleteBatch t b}"
    using executed_delete_attempt[of "session bn a" t b] body by simp
  show ?case
  proof (cases r)
    case None
    then show ?thesis using body tr1 by (auto simp: executed_append)
  next
    case (Some e)
    let ?tr2 = "tr @ tr1 @ [LogError (BatchError t bn (a + 1) e)]"
    have ex2: "set (executed ?tr2) \<subseteq> set (executed tr) \<union> {DeleteBatch t b}"
      using tr1 by (auto simp: executed_append)
    show ?thesis
    proof (cases "int a = M - 1")
      case True
      then show ?thesis using body Some ex2 by (simp add: Let_def)
    next
      case False
      have ex3: "set (executed (?tr2 @ [Sleep (d * real (a + 1))])) \<subseteq> set (executed tr) \<union> {DeleteBatch t b}"
        using tr1 by (auto simp: executed_append)
      show ?thesis
      proof (cases "sleep (d * real (a + 1))")
        case None
        have "set (executed (snd (delete_attempts sleep session d M t b bn attempts
                                   (?tr2 @ [Sleep (d * real (a + 1))]))))
              \<subseteq> set (executed (?tr2 @ [Sleep (d * real (a + 1))])) \<union> {DeleteBatch t b}"
          by (rule Cons.IH)
        then have "set (executed (snd (delete_attempts sleep session d M t b bn attempts
                                   (?tr2 @ [Sleep (d * real (a + 1))]))))
              \<subseteq> set (executed tr) \<union> {DeleteBatch t b}"
          using ex3 by blast
        then show ?thesis using body Some False None by (simp add: Let_def)
      next
        case (Some err)
        then show ?thesis using body \<open>r = Some e\<close> False ex2 by (simp add: Let_def)
      qed
    qed
  qed
qed

lemma delete_worker_executed:
  "set (executed (snd (delete_worker env retry_delay max_retries table_name task)))
     \<subseteq> {DeleteBatch table_name (fst task)}"
  unfolding delete_worker_def execute_delete_batch_def
  using delete_attempts_executed[of _ _ _ _ table_name "fst task" _ _ "[]"] by simp

text \<open>
  The worker reports the rows of its batch as deleted exactly when the grouped delete
  succeeds.
\<close>

lemma delete_worker_deleted:
  "deleted_rows (fst (delete_worker env retry_delay max_retries table_name task))
   = (if delete_succeeds env retry_delay max_retries table_name task then length (fst task) else 0)"
proof (cases "0 < max_retries")
  case False
  then have "nat max_retries = 0" by simp
  then show ?thesis
    by (simp add: delete_worker_def execute_delete_batch_def delete_succeeds_def)
next
  case True
  let ?ok = "\<lambda>a. fst (delete_attempt (delete_session env (snd task) a) table_name (fst task)) = None"
  let ?S = "\<lambda>a. time_sleep env (retry_delay * real (a + 1)) = None"
  from execute_delete_batch_run[OF True, of "delete_session env" "snd task" table_name "fst task"
         "time_sleep env" retry_delay]
  obtain n res where n: "n < nat max_retries" "\<forall>a < n. \<not> ?ok a \<and> ?S a"
    "?ok n \<or> int n = max_retries - 1 \<or> \<not> ?S n"
    "execute_delete_batch (time_sleep env) (delete_session env) retry_delay max_retries table_name
       (fst task) (snd task) = res"
    "fst res = (if ?ok n then Inr (length (fst task), 0)
                else if int n = max_retries - 1 then Inr (0, length (fst task))
                else Inl (the (time_sleep env (retry_delay * real (n + 1)))))"
    by force
  have rows: "deleted_rows (fst (delete_worker env retry_delay max_retries table_name task))
              = (if ?ok n then length (fst task) else 0)"
    unfolding delete_worker_def n(4) n(5) by simp
  have "delete_succeeds env retry_delay max_retries table_name task \<longleftrightarrow> ?ok n"
  proof
    assume "?ok n"
    then show "delete_succeeds env retry_delay max_retries table_name task"
      unfolding delete_succeeds_def using n(1,2)
      by (intro bexI[of _ n]) (simp_all add: delete_attempt_ok_iff)
  next
    assume "delete_succeeds env retry_delay max_retries table_name task"
    then obtain a where a: "a < nat max_retries" "?ok a" "\<forall>a' < a. ?S a'"
      unfolding delete_succeeds_def by (auto simp: delete_attempt_ok_iff)
    show "?ok n"
    proof (rule ccontr)
      assume no: "\<not> ?ok n"
      have "\<not> a < n" using n(2) a(2) by blast
      moreover have "a \<noteq> n" using no a(2) by blast
      ultimately have lt: "n < a" by simp
      then have "?S n" using a(3) by blast
      moreover have "int n \<noteq> max_retries - 1" using lt a(1) by linarith
      ultimately show False using n(3) no by blast
    qed
  qed
  then show ?thesis unfolding rows by simp
qed

lemma delete_succeeds_first_attempt:
  assumes "0 < max_retries"
    and "\<forall>row \<in> set (fst task). delete_session env (snd task) 0 (AddDelete table_name row) = None"
    and "delete_session env (snd task) 0 (Run (DeleteBatch table_name (fst task))) = None"
  shows "delete_succeeds env retry_delay max_retries table_name task"
  unfolding delete_succeeds_def using assms by (intro bexI[of _ 0]) simp_all

lemma delete_fails_when_run_raises:
  assumes "\<forall>a. delete_session env (snd task) a (Run (DeleteBatch table_name (fst task))) \<noteq> None"
  shows "\<not> delete_succeeds env retry_delay max_retries table_name task"
  unfolding delete_succeeds_def using assms by simp

lemma page_tasks_batches: "map fst (page_tasks n table_name page) = batches_of n (snd page)"
  by (simp add: page_tasks_def batches_of_def comp_def)

lemma page_tasks_rows:
  assumes "0 < n"
  shows "sum_list (map (\<lambda>task. length (fst task)) (page_tasks n table_name page)) = length (snd page)"
proof -
  have "sum_list (map (\<lambda>task. length (fst task)) (page_tasks n table_name page))
        = sum_list (map length (map fst (page_tasks n table_name page)))"
    by (simp add: comp_def)
  also have "\<dots> = length (concat (batches_of n (snd page)))"
    unfolding page_tasks_batches by (simp add: length_concat)
  finally show ?thesis by (simp add: concat_batches_of[OF assms])
qed

lemma sum_list_concat_map:
  fixes f :: "'a \<Rightarrow> nat"
  shows "sum_list (map f (concat (map g xs))) = sum_list (map (\<lambda>x. sum_list (map f (g x))) xs)"
  by (induction xs) simp_all

lemma table_tasks_rows:
  assumes "0 < n"
  shows "sum_list (map (\<lambda>task. length (fst task)) (table_tasks n table_name rs))
         = length (concat (pages_of rs))"
proof -
  have "sum_list (map (\<lambda>task. length (fst task)) (table_tasks n table_name rs))
        = sum_list (map (\<lambda>page. length (snd page)) (numbered_pages 1 rs))"
    unfolding table_tasks_def sum_list_concat_map by (simp add: page_tasks_rows[OF assms])
  also have "\<dots> = length (concat (pages_of rs))"
    by (simp add: pages_of_def length_concat comp_def)
  finally show ?thesis .
qed

lemma table_tasks_in_a_page:
  assumes "task \<in> set (table_tasks n table_name rs)"
  shows "\<exists>page \<in> set (pages_of rs). fst task \<in> set (batches_of n page)"
proof -
  obtain p where p: "p \<in> set (numbered_pages 1 rs)" "task \<in> set (page_tasks n table_name p)"
    using assms by (auto simp: table_tasks_def)
  have "fst task \<in> set (map fst (page_tasks n table_name p))" using p(2) by simp
  then have "fst task \<in> set (batches_of n (snd p))" by (simp only: page_tasks_batches)
  moreover have "snd p \<in> set (pages_of rs)" using p(1) by (simp add: pages_of_def)
  ultimately show ?thesis by blast
qed

lemma process_table_result:
  assumes "0 < batch_size" "0 < concurrency"
    and "\<forall>futures. mset (batches_completed env futures) = mset futures"
    and "table_name \<in> fst ` set tables_metadata"
    and "select_keys env table_name page_size = Inr rs"
  shows "fst (snd (process_table env tables_metadata page_size batch_size concurrency retry_delay
                     max_retries table_name))
           = sum_list (map (\<lambda>task. deleted_rows (fst (delete_worker env retry_delay max_retries table_name task)))
                           (table_tasks (nat batch_size) table_name rs))
       \<and> set (snd (snd (process_table env tables_metadata page_size batch_size concurrency retry_delay
                     max_retries table_name)))
           = (\<Union>task \<in> set (table_tasks (nat batch_size) table_name rs).
                 set (snd (delete_worker env retry_delay max_retries table_name task)))"
  using process_pages_result[OF assms(1,2,3), of retry_delay max_retries table_name 1 rs 0 "[]"]
    assms(4,5)
  by (simp add: process_table_def table_tasks_def)

lemma count_pages_result:
  assumes "0 < concurrency"
  shows "snd (count_pages concurrency rs tot)
         = tot + sum_list (map (\<lambda>page. length (snd page)) (numbered_pages n rs))"
proof (induction n rs arbitrary: tot rule: numbered_pages.induct)
  case (1 n rows nxt)
  have f: "(\<lambda>total (batch, i). total + length batch) = (\<lambda>a x. a + length (fst x))"
    by (auto simp: fun_eq_iff)
  have len: "sum_list (map (\<lambda>x. length (slice rows x (nat concurrency)))
                          (range_step (length rows) (nat concurrency))) = length rows"
    using page_tasks_rows[of "nat concurrency" "''t''" "(0, rows)"] assms
    by (simp add: page_tasks_def comp_def)
  show ?case
  proof (cases "rows = []")
    case True
    then show ?thesis by simp
  next
    case False
    show ?thesis
    proof (cases nxt)
      case (NextReturns rs)
      show ?thesis using False NextReturns "1.IH"[OF False NextReturns] assms len
        by (simp add: chunks_def f foldl_add comp_def Let_def)
    next
      case NoMorePages
      show ?thesis using False NoMorePages assms len
        by (simp add: chunks_def f foldl_add comp_def Let_def)
    next
      case (NextRaises e)
      show ?thesis using False NextRaises assms len
        by (simp add: chunks_def f foldl_add comp_def Let_def)
    qed
  qed
qed

lemma delete_all_rows_count:
  assumes "0 < concurrency" "keyspace_tables table_name = Some table_metadata"
    and "partition_key table_metadata @ clustering_key table_metadata \<noteq> []"
    and "scan table_name page_size = Inr rs"
  shows "snd (delete_all_rows keyspace_tables scan table_name page_size concurrency)
         = Some (length (concat (pages_of rs)))"
proof -
  have "snd (count_pages concurrency rs 0) = length (concat (pages_of rs))"
    using count_pages_result[OF assms(1), of rs 0 1]
    by (simp add: pages_of_def length_concat comp_def)
  then show ?thesis
    using assms(2,3,4) by (cases "count_pages concurrency rs 0") (simp add: delete_all_rows_def)
qed

subsection \<open>Scans in pages\<close>

lemma numbered_pages_result_set_of_pages:
  assumes "\<forall>page \<in> set pages. page \<noteq> []"
  shows "map snd (numbered_pages n (result_set_of_pages pages)) = pages"
  using assms
proof (induction pages arbitrary: n rule: result_set_of_pages.induct)
  case 1
  then show ?case by simp
next
  case (2 page)
  then show ?case by simp
next
  case (3 page p ps)
  then show ?case by simp
qed

lemma pages_of_scan_keys:
  assumes "0 < page_size"
  shows "pages_of (scan_keys page_size rows) = batches_of page_size rows"
  unfolding pages_of_def scan_keys_def
  by (rule numbered_pages_result_set_of_pages) (use batches_of_sizes[OF assms] in auto)

lemma batches_of_five: "batches_of 2 [a, b, c, d, e] = [[a, b], [c, d], [e]]"
  by (simp add: batches_of_rec batches_of_Nil)

lemma list_of_five:
  assumes "length xs = 5"
  shows "\<exists>a b c d e. xs = [a, b, c, d, e]"
  using assms by (auto simp: length_Suc_conv eval_nat_numeral)

lemma set_executed: "set (executed tr) = {s. Execute s \<in> set tr}"
  by (induction tr rule: executed.induct) auto

lemma submission_order_perm: "mset (submission_order futures) = mset futures"
  by (simp add: submission_order_def)


lemma process_table_scenario:
  "process_table (one_table_env [1, 2, 3, 4, 5] delete_ok)
     [(''t'', \<lparr>partition_key = [''id''], clustering_key = []\<rparr>)] 2 2 10 (1 / 2) 3 ''t''
   = (''t'', 5, [Execute (DeleteBatch ''t'' [1, 2]), Execute (DeleteBatch ''t'' [3, 4]),
                 Execute (DeleteBatch ''t'' [5])])"
  by (simp add: process_table_def one_table_env_def scan_keys_def batches_of_five chunks_def
        range_step_def slice_def thread_pool_def execute_delete_batch_def delete_attempt_def
        delete_ok_def submission_order_def upt_conv_Cons)

subsection \<open>The example keyspace\<close>

lemma one_table_env_fields:
  "tables (one_table_env rows session) ''t'' = Some \<lparr>partition_key = [''id''], clustering_key = []\<rparr>"
  "select_keys (one_table_env rows session) table_name page_size = Inr (scan_keys (nat page_size) rows)"
  "delete_session (one_table_env rows session) = session"
  "time_sleep (one_table_env rows session) = sleep_returns"
  "mset (batches_completed (one_table_env rows session) futures) = mset futures"
  "mset (tables_completed (one_table_env rows session) results) = mset results"
  "prepare (one_table_env rows session) table_name = None"
  by (simp_all add: one_table_env_def submission_order_def)

subsection \<open>The tables of a multi-table delete\<close>

lemma key_set_dict_set: "fst ` set (dict_set k v d) = insert k (fst ` set d)"
  unfolding dict_set_def by (rule key_set_dict_update)

lemma map_of_dict_set: "map_of (dict_set k v d) = (map_of d)(k \<mapsto> v)"
  unfolding dict_set_def by (rule map_of_dict_update)

lemma prepare_tables_result:
  assumes "\<forall>t \<in> set table_names. tables env t \<noteq> None \<longrightarrow> prepare env t = None"
  shows "\<exists>tables_metadata'.
           prepare_tables env table_names (warnings, tables_metadata)
             = Inr (warnings @ map LogWarning (filter (\<lambda>t. tables env t = None) table_names),
                    tables_metadata')
           \<and> fst ` set tables_metadata'
               = fst ` set tables_metadata \<union> {t \<in> set table_names. tables env t \<noteq> None}"
  using assms
proof (induction table_names arbitrary: warnings tables_metadata)
  case Nil
  then show ?case by simp
next
  case (Cons t table_names)
  have rest: "\<forall>t \<in> set table_names. tables env t \<noteq> None \<longrightarrow> prepare env t = None"
    using Cons.prems by simp
  show ?case
  proof (cases "tables env t")
    case None
    obtain md' where md': "prepare_tables env table_names (warnings @ [LogWarning t], tables_metadata)
             = Inr ((warnings @ [LogWarning t]) @ map LogWarning (filter (\<lambda>t. tables env t = None) table_names),
                    md')"
       "fst ` set md' = fst ` set tables_metadata \<union> {t \<in> set table_names. tables env t \<noteq> None}"
      using Cons.IH[OF rest, of "warnings @ [LogWarning t]" tables_metadata] by blast
    have "fst ` set md' = fst ` set tables_metadata \<union> {t' \<in> set (t # table_names). tables env t' \<noteq> None}"
      using md'(2) None by auto
    then show ?thesis using md'(1) None by simp
  next
    case (Some m)
    then have p: "prepare env t = None" using Cons.prems by simp
    obtain md' where md': "prepare_tables env table_names (warnings, dict_set t m tables_metadata)
             = Inr (warnings @ map LogWarning (filter (\<lambda>t. tables env t = None) table_names), md')"
       "fst ` set md' = fst ` set (dict_set t m tables_metadata)
                          \<union> {t \<in> set table_names. tables env t \<noteq> None}"
      using Cons.IH[OF rest, of warnings "dict_set t m tables_metadata"] by blast
    have "fst ` set md' = fst ` set tables_metadata \<union> {t' \<in> set (t # table_names). tables env t' \<noteq> None}"
      using md'(2) Some by (auto simp: key_set_dict_set)
    then show ?thesis using md'(1) Some p by simp
  qed
qed

lemma collect_results:
  assumes "\<forall>x \<in> set xs. x = P (fst x)"
  shows "map_of (foldl (\<lambda>results (table_name, deleted_count, effs).
                          dict_set table_name deleted_count results) results xs) t
           = (if t \<in> fst ` set xs then Some (fst (snd (P t))) else map_of results t)
       \<and> fst ` set (foldl (\<lambda>results (table_name, deleted_count, effs).
                          dict_set table_name deleted_count results) results xs)
           = fst ` set results \<union> fst ` set xs"
  using assms
proof (induction xs arbitrary: results)
  case Nil
  then show ?case by simp
next
  case (Cons x xs)
  obtain t' c e where x: "x = (t', c, e)" by (cases x)
  have px: "P t' = (t', c, e)" using Cons.prems x by simp
  have rest: "\<forall>x \<in> set xs. x = P (fst x)" using Cons.prems by simp
  note IH = Cons.IH[OF rest, of "dict_set t' c results"]
  show ?case
  proof (cases "t \<in> fst ` set xs")
    case True
    then show ?thesis using IH by (auto simp: x key_set_dict_set)
  next
    case False
    then show ?thesis using IH px by (auto simp: x key_set_dict_set map_of_dict_set)
  qed
qed

lemma fst_process_table:
  "fst (process_table env tables_metadata page_size batch_size concurrency retry_delay max_retries t) = t"
  by (simp add: process_table_def split: sum.splits)

lemma process_table_missing:
  assumes "t \<notin> fst ` set tables_metadata"
  shows "process_table env tables_metadata page_size batch_size concurrency retry_delay max_retries t
         = (t, 0, [])"
  using assms by (simp add: process_table_def)


lemma process_table_all_ok:
  assumes "0 < batch_size" "0 < concurrency" "0 < max_retries"
    and "\<forall>futures. mset (batches_completed env futures) = mset futures"
    and "table_name \<in> fst ` set tables_metadata"
    and "select_keys env table_name page_size = Inr rs"
    and "\<forall>batch_num request. delete_session env batch_num 0 request = None"
  shows "fst (snd (process_table env tables_metadata page_size batch_size concurrency retry_delay
                     max_retries table_name))
         = length (concat (pages_of rs))"
proof -
  have "fst (snd (process_table env tables_metadata page_size batch_size concurrency retry_delay
                     max_retries table_name))
        = sum_list (map (\<lambda>task. deleted_rows (fst (delete_worker env retry_delay max_retries table_name task)))
                        (table_tasks (nat batch_size) table_name rs))"
    using process_table_result[OF assms(1,2,4,5,6)] by blast
  also have "\<dots> = sum_list (map (\<lambda>task. length (fst task)) (table_tasks (nat batch_size) table_name rs))"
  proof -
    have a: "\<forall>row \<in> set (fst task). delete_session env (snd task) 0 (AddDelete table_name row) = None"
      for task using assms(7) by blast
    have r: "delete_session env (snd task) 0 (Run (DeleteBatch table_name (fst task))) = None"
      for task using assms(7) by blast
    have "delete_succeeds env retry_delay max_retries table_name task" for task
      by (rule delete_succeeds_first_attempt[OF assms(3) a r])
    then show ?thesis by (simp add: delete_worker_deleted)
  qed
  also have "\<dots> = length (concat (pages_of rs))"
    by (rule table_tasks_rows) (use assms(1) in simp)
  finally show ?thesis .
qed

subsection \<open>The tasks and the statistics of a bulk insert\<close>

lemma table_batches_batches: "map (\<lambda>task. fst (snd task)) (table_batches n table) = batches_of n (snd table)"
  by (simp add: table_batches_def batches_of_def comp_def)

lemma table_batches_table: "task \<in> set (table_batches n table) \<Longrightarrow> fst task = fst table"
  by (auto simp: table_batches_def)

lemma table_batches_rows:
  assumes "0 < n"
  shows "sum_list (map (\<lambda>task. length (fst (snd task))) (table_batches n table)) = length (snd table)"
proof -
  have "sum_list (map (\<lambda>task. length (fst (snd task))) (table_batches n table))
        = sum_list (map length (map (\<lambda>task. fst (snd task)) (table_batches n table)))"
    by (simp add: comp_def)
  also have "\<dots> = length (concat (batches_of n (snd table)))"
    unfolding table_batches_batches by (simp add: length_concat)
  finally show ?thesis by (simp add: concat_batches_of[OF assms])
qed

lemma build_tasks_positive:
  assumes "0 < batch_size"
  shows "build_tasks batch_size tables_data = Inr (concat (map (table_batches (nat batch_size)) tables_data))"
proof (induction tables_data)
  case Nil
  then show ?case by simp
next
  case (Cons table tables_data)
  obtain t d where table: "table = (t, d)" by (cases table)
  show ?case
    using assms Cons.IH by (simp add: table chunks_def table_batches_def comp_def)
qed

lemma build_tasks_negative:
  assumes "batch_size < 0"
  shows "build_tasks batch_size tables_data = Inr []"
proof (induction tables_data)
  case Nil
  then show ?case by simp
next
  case (Cons table tables_data)
  obtain t d where table: "table = (t, d)" by (cases table)
  show ?case using assms Cons.IH by (simp add: table chunks_def)
qed

lemma build_tasks_zero:
  assumes "tables_data \<noteq> []"
  shows "build_tasks 0 tables_data = Inl ''ValueError: range() arg 3 must not be zero''"
proof -
  obtain table rest where td: "tables_data = table # rest" using assms by (cases tables_data) auto
  obtain t d where table: "table = (t, d)" by (cases table)
  show ?thesis by (simp add: td table chunks_def)
qed

lemma list_append_rows:
  "sum_list (map (\<lambda>g. length (snd g)) (list_append k v d))
     = sum_list (map (\<lambda>g. length (snd g)) d) + 1"
  unfolding list_append_def by (induction d) auto

lemma group_by_rows:
  "sum_list (map (\<lambda>g. length (snd g)) (group_by key val xs d))
     = sum_list (map (\<lambda>g. length (snd g)) d) + length xs"
proof (induction xs arbitrary: d)
  case Nil
  then show ?case by (simp add: group_by_Nil)
next
  case (Cons x xs)
  show ?case
    unfolding group_by_Cons Cons.IH by (simp add: list_append_rows)
qed

lemma group_by_table_nonempty: "records \<noteq> [] \<Longrightarrow> group_by_table records \<noteq> []"
proof -
  assume "records \<noteq> []"
  then have "card (fst ` set records) \<noteq> 0" by simp
  then have "length (group_by_table records) \<noteq> 0"
    by (simp add: group_by_table_def length_group_by)
  then show ?thesis by auto
qed

lemma all_tasks_rows:
  assumes "0 < n"
  shows "sum_list (map (\<lambda>task. length (fst (snd task))) (all_tasks_of n records)) = length records"
proof -
  have "sum_list (map (\<lambda>task. length (fst (snd task))) (all_tasks_of n records))
        = sum_list (map (\<lambda>table. length (snd table)) (group_by_table records))"
    unfolding all_tasks_of_def sum_list_concat_map by (simp add: table_batches_rows[OF assms])
  also have "\<dots> = length records"
    unfolding group_by_table_def group_by_rows by simp
  finally show ?thesis .
qed

lemma submit_all_eq:
  "submit_all sleep session retry_delay max_retries all_tasks
     = map (\<lambda>task. (task, insert_worker sleep session retry_delay max_retries task)) all_tasks"
  by (simp add: submit_all_def insert_worker_def case_prod_beta)

lemma batch_insert_result:
  assumes "records \<noteq> []"
  shows "batch_insert_dicts_to_cassandra sleep session as_completed execution_time
           records batch_size concurrency retry_delay max_retries
         = (if batch_size = 0 then Inl ''ValueError: range() arg 3 must not be zero''
            else if concurrency \<le> 0 then Inl ''ValueError: max_workers must be greater than 0''
            else Inr (final_stats (length records)
                       (foldl record_result []
                          (as_completed
                             (map (\<lambda>task. (task, insert_worker sleep session retry_delay max_retries task))
                                  (if batch_size < 0 then [] else all_tasks_of (nat batch_size) records))))
                       execution_time))"
proof -
  consider "batch_size = 0" | "batch_size < 0" | "0 < batch_size" by linarith
  then show ?thesis
  proof cases
    case 1
    then show ?thesis
      using assms build_tasks_zero[OF group_by_table_nonempty[OF assms]]
      by (simp add: batch_insert_dicts_to_cassandra_def)
  next
    case 2
    then show ?thesis
      using assms build_tasks_negative[OF 2, of "group_by_table records"]
      by (simp add: batch_insert_dicts_to_cassandra_def thread_pool_def submit_all_eq)
  next
    case 3
    then show ?thesis
      using assms build_tasks_positive[OF 3, of "group_by_table records"]
      by (simp add: batch_insert_dicts_to_cassandra_def thread_pool_def submit_all_eq all_tasks_of_def)
  qed
qed


lemma totals_dict_update:
  fixes f :: "table_stat \<Rightarrow> nat"
  assumes "\<And>s. f (g (Some s)) = f s + x" "f (g None) = x"
  shows "sum_list (map (\<lambda>(t, stats). f stats) (dict_update k g d))
         = sum_list (map (\<lambda>(t, stats). f stats) d) + x"
  using assms by (induction d) auto

lemma total_successful_record:
  "total_successful (record_result table_stats future)
     = total_successful table_stats
       + (if raised (snd future) = None then local_successful (snd future) else 0)"
proof -
  obtain t b n res where f: "future = ((t, b, n), res)" by (metis prod.exhaust)
  show ?thesis
  proof (cases "raised res")
    case None
    then show ?thesis
      unfolding total_successful_def f record_result_def
      by (simp add: totals_dict_update[where x = "local_successful res"] add_result_def empty_stat_def)
  next
    case (Some e)
    then show ?thesis
      unfolding total_successful_def f record_result_def
      using totals_dict_update[where f = successful and x = 0 and k = t and d = table_stats
          and g = "\<lambda>old. (case old of None \<Rightarrow> empty_stat | Some s \<Rightarrow> s)
                         \<lparr>failed := failed (case old of None \<Rightarrow> empty_stat | Some s \<Rightarrow> s) + length b\<rparr>"]
      by (simp add: empty_stat_def)
  qed
qed

lemma total_failed_record:
  "total_failed (record_result table_stats future)
     = total_failed table_stats
       + (if raised (snd future) = None then local_failed (snd future)
          else length (fst (snd (fst future))))"
proof -
  obtain t b n res where f: "future = ((t, b, n), res)" by (metis prod.exhaust)
  show ?thesis
  proof (cases "raised res")
    case None
    then show ?thesis
      unfolding total_failed_def f record_result_def
      by (simp add: totals_dict_update[where x = "local_failed res"] add_result_def empty_stat_def)
  next
    case (Some e)
    then show ?thesis
      unfolding total_failed_def f record_result_def
      using totals_dict_update[where f = failed and x = "length b" and k = t and d = table_stats
          and g = "\<lambda>old. (case old of None \<Rightarrow> empty_stat | Some s \<Rightarrow> s)
                         \<lparr>failed := failed (case old of None \<Rightarrow> empty_stat | Some s \<Rightarrow> s) + length b\<rparr>"]
      by (simp add: empty_stat_def)
  qed
qed

lemma totals_fold:
  "total_successful (foldl record_result table_stats futures)
     = total_successful table_stats
       + sum_list (map (\<lambda>future. if raised (snd future) = None then local_successful (snd future) else 0)
                       futures)
   \<and> total_failed (foldl record_result table_stats futures)
     = total_failed table_stats
       + sum_list (map (\<lambda>future. if raised (snd future) = None then local_failed (snd future)
                                  else length (fst (snd (fst future))))
                       futures)"
  by (induction futures arbitrary: table_stats)
     (simp_all add: total_successful_record total_failed_record)

lemma foldl_add_result:
  "successful (foldl add_result s rs) = successful s + sum_list (map local_successful rs)
   \<and> failed (foldl add_result s rs) = failed s + sum_list (map local_failed rs)
   \<and> batches (foldl add_result s rs) = batches s + length rs
   \<and> errors (foldl add_result s rs) = errors s @ concat (map local_errors rs)"
  by (induction rs arbitrary: s) (simp_all add: add_result_def)

lemma map_of_record_result:
  "raised res = None \<Longrightarrow>
   map_of (record_result table_stats ((t, b, n), res)) =
     (map_of table_stats)(t \<mapsto> add_result (case map_of table_stats t of None \<Rightarrow> empty_stat | Some s \<Rightarrow> s) res)"
  by (simp add: record_result_def map_of_dict_update)

lemma map_of_record_fold:
  "\<forall>future \<in> set futures. raised (snd future) = None \<Longrightarrow>
   map_of (foldl record_result table_stats futures) t =
     (if filter (\<lambda>future. fst (fst future) = t) futures = [] then map_of table_stats t
      else Some (foldl add_result (case map_of table_stats t of None \<Rightarrow> empty_stat | Some s \<Rightarrow> s)
                   (map snd (filter (\<lambda>future. fst (fst future) = t) futures))))"
proof (induction futures arbitrary: table_stats)
  case Nil
  then show ?case by simp
next
  case (Cons future futures)
  obtain t' b n res where f: "future = ((t', b, n), res)" by (metis prod.exhaust)
  have r: "raised res = None" using Cons.prems by (simp add: f)
  have rest: "\<forall>future \<in> set futures. raised (snd future) = None" using Cons.prems by simp
  show ?case
    unfolding f foldl_Cons Cons.IH[OF rest] map_of_record_result[OF r]
    by simp
qed

subsection \<open>The final statistics\<close>

lemma insert_worker_successful_le:
  "local_successful (insert_worker sleep session retry_delay max_retries task) \<le> length (fst (snd task))"
proof -
  have "local_successful (insert_worker sleep session retry_delay max_retries task) \<in> {0, length (fst (snd task))}
      \<and> local_failed (insert_worker sleep session retry_delay max_retries task) \<in> {0, length (fst (snd task))}"
    unfolding insert_worker_def execute_table_batch_def
    by (rule insert_attempts_each_count) simp_all
  then show ?thesis by auto
qed

lemma total_successful_le:
  assumes "\<forall>futures. mset (as_completed futures) = mset futures" "batch_size \<noteq> 0"
  shows "total_successful
           (foldl record_result []
              (as_completed
                 (map (\<lambda>task. (task, insert_worker sleep session retry_delay max_retries task))
                      (if batch_size < 0 then [] else all_tasks_of (nat batch_size) records))))
         \<le> length records"
proof -
  let ?tasks = "if batch_size < 0 then [] else all_tasks_of (nat batch_size) records"
  let ?W = "insert_worker sleep session retry_delay max_retries"
  let ?futures = "map (\<lambda>task. (task, ?W task)) ?tasks"
  have perm: "mset (as_completed ?futures) = mset ?futures" using assms(1) by blast
  have "total_successful (foldl record_result [] (as_completed ?futures))
        = sum_list (map (\<lambda>future. if raised (snd future) = None then local_successful (snd future) else 0)
                        (as_completed ?futures))"
    using totals_fold[of "[]" "as_completed ?futures"] by (simp add: total_successful_def)
  also have "\<dots> = sum_list (map (\<lambda>future. if raised (snd future) = None then local_successful (snd future) else 0)
                               ?futures)"
    by (rule sum_list_perm[OF perm])
  also have "\<dots> = sum_list (map (\<lambda>task. if raised (?W task) = None then local_successful (?W task) else 0)
                               ?tasks)"
    by (simp add: comp_def cong: if_cong)
  also have "\<dots> \<le> sum_list (map (\<lambda>task. length (fst (snd task))) ?tasks)"
  proof (rule sum_list_mono)
    fix task
    show "(if raised (?W task) = None then local_successful (?W task) else 0) \<le> length (fst (snd task))"
      using insert_worker_successful_le[of sleep session retry_delay max_retries task] by simp
  qed
  also have "\<dots> \<le> length records"
  proof (cases "batch_size < 0")
    case True
    then show ?thesis by simp
  next
    case False
    then have "0 < nat batch_size" using assms(2) by simp
    then show ?thesis using False by (simp add: all_tasks_rows)
  qed
  finally show ?thesis .
qed

lemma final_stats_lookup:
  "map_of (final_stats total_records table_stats execution_time) ''total_records''
     = Some (IntV (int total_records))"
  "map_of (final_stats total_records table_stats execution_time) ''total_successful''
     = Some (IntV (int (total_successful table_stats)))"
  "map_of (final_stats total_records table_stats execution_time) ''total_failed''
     = Some (IntV (int (total_failed table_stats)))"
  "map_of (final_stats total_records table_stats execution_time) ''success_rate''
     = Some (if total_records > 0
             then FloatV (real (total_successful table_stats) / real total_records * 100)
             else IntV 0)"
  "map_of (final_stats total_records table_stats execution_time) ''records_per_second''
     = Some (if execution_time > 0
             then FloatV (real (total_successful table_stats) / execution_time)
             else IntV 0)"
  "map_of (final_stats total_records table_stats execution_time) ''tables'' = Some (TablesV table_stats)"
  "map fst (final_stats total_records table_stats execution_time)
     = [''total_records'', ''total_successful'', ''total_failed'', ''success_rate'',
        ''execution_time'', ''records_per_second'', ''tables'']"
  by (simp_all add: final_stats_def)

lemma percentage_bounds:
  assumes "n \<le> m" "0 < m"
  shows "0 \<le> real n / real m * 100 \<and> real n / real m * 100 \<le> 100"
proof -
  have "real n / real m \<le> 1" using assms by simp
  then have "real n / real m * 100 \<le> 1 * 100" by (rule mult_right_mono) simp
  moreover have "0 \<le> real n / real m * 100" by simp
  ultimately show ?thesis by simp
qed

subsection \<open>The statistics of a table\<close>

lemma results_of_table:
  fixes W :: "'v task \<Rightarrow> ('v, 'r) batch_result"
  assumes "mset finished = mset (map (\<lambda>task. (task, W task)) tasks)"
  shows "mset (map snd (filter (\<lambda>future. fst (fst future) = t) finished))
         = mset (map W (filter (\<lambda>task. fst task = t) tasks))"
proof -
  have "mset (filter (\<lambda>future. fst (fst future) = t) finished)
        = mset (filter (\<lambda>future. fst (fst future) = t) (map (\<lambda>task. (task, W task)) tasks))"
    using assms by (simp only: mset_filter)
  also have "\<dots> = mset (map (\<lambda>task. (task, W task)) (filter (\<lambda>task. fst task = t) tasks))"
    by (simp add: filter_map comp_def)
  finally have "mset (map snd (filter (\<lambda>future. fst (fst future) = t) finished))
        = mset (map snd (map (\<lambda>task. (task, W task)) (filter (\<lambda>task. fst task = t) tasks)))"
    by (simp only: mset_map)
  then show ?thesis by (simp add: comp_def)
qed

lemma table_stat_of_results:
  fixes W :: "'v task \<Rightarrow> ('v, 'r) batch_result"
  assumes "mset finished = mset (map (\<lambda>task. (task, W task)) tasks)"
    and "task \<in> set tasks"
    and "\<forall>task' \<in> set tasks. raised (W task') = None"
  shows "\<exists>s. map_of (foldl record_result [] finished) (fst task) = Some s
           \<and> successful s = sum_list (map (\<lambda>task'. local_successful (W task'))
                                          (filter (\<lambda>task'. fst task' = fst task) tasks))
           \<and> failed s = sum_list (map (\<lambda>task'. local_failed (W task'))
                                      (filter (\<lambda>task'. fst task' = fst task) tasks))
           \<and> batches s = length (filter (\<lambda>task'. fst task' = fst task) tasks)
           \<and> set (local_errors (W task)) \<subseteq> set (errors s)"
proof -
  let ?t = "fst task"
  let ?rs = "map snd (filter (\<lambda>future. fst (fst future) = ?t) finished)"
  let ?ts = "filter (\<lambda>task'. fst task' = ?t) tasks"
  let ?s = "foldl add_result empty_stat ?rs"
  have m: "mset ?rs = mset (map W ?ts)" by (rule results_of_table[OF assms(1)])
  have "task \<in> set ?ts" using assms(2) by simp
  then have "W task \<in> set (map W ?ts)" by simp
  then have inr: "W task \<in> set ?rs" using m by (metis mset_eq_setD)
  then have "?rs \<noteq> []" by (metis empty_iff empty_set)
  then have ne: "filter (\<lambda>future. fst (fst future) = ?t) finished \<noteq> []" by (metis list.simps(8))
  have "set finished = set (map (\<lambda>task. (task, W task)) tasks)"
    using assms(1) by (rule mset_eq_setD)
  then have returned: "\<forall>future \<in> set finished. raised (snd future) = None"
    using assms(3) by auto
  have look: "map_of (foldl record_result [] finished) ?t = Some ?s"
    using ne by (simp add: map_of_record_fold[OF returned])
  note f = foldl_add_result[of empty_stat ?rs]
  have 1: "successful ?s = sum_list (map (\<lambda>task'. local_successful (W task')) ?ts)"
    using f sum_list_perm[OF m, of local_successful] by (simp add: empty_stat_def comp_def)
  have 2: "failed ?s = sum_list (map (\<lambda>task'. local_failed (W task')) ?ts)"
    using f sum_list_perm[OF m, of local_failed] by (simp add: empty_stat_def comp_def)
  have "length ?rs = length (map W ?ts)" using m by (rule mset_eq_length)
  then have 3: "batches ?s = length ?ts" using f by (simp add: empty_stat_def)
  have 4: "set (local_errors (W task)) \<subseteq> set (errors ?s)"
    using f inr by (auto simp: empty_stat_def)
  show ?thesis using look 1 2 3 4 by (intro exI[of _ ?s] conjI)
qed

lemma two_batches_example:
  "all_tasks_of (nat 1) [(''t'', [(''a'', 1 :: int)]), (''t'', [(''a'', 2)])]
   = [(''t'', [[(''a'', 1)]], Suc 0), (''t'', [[(''a'', 2)]], 2)]"
  by (simp add: all_tasks_of_def group_by_table_def group_by_def list_append_def table_batches_def
        range_step_def slice_def upt_conv_Cons)

lemma first_batch_fails_example:
  "insert_worker sleep_returns (first_batch_fails :: (int, unit) insert_session) (1 / 2) 3 (''t'', [[(''a'', 1)]], Suc 0)
   = \<lparr>local_successful = 0, local_failed = 1,
      local_errors = [BatchError ''t'' (Suc 0) 1 ''WriteTimeout'', BatchError ''t'' (Suc 0) 2 ''WriteTimeout'',
                      BatchError ''t'' (Suc 0) 3 ''WriteTimeout''],
      effects = [Execute (InsertBatch ''t'' [''a''] [[1]]), Sleep (1 / 2),
                 Execute (InsertBatch ''t'' [''a''] [[1]]), Sleep 1,
                 Execute (InsertBatch ''t'' [''a''] [[1]])],
      raised = None\<rparr>"
  "insert_worker sleep_returns (first_batch_fails :: (int, unit) insert_session) (1 / 2) 3 (''t'', [[(''a'', 2)]], 2)
   = \<lparr>local_successful = 1, local_failed = 0, local_errors = [],
      effects = [Execute (InsertBatch ''t'' [''a''] [[2]])], raised = None\<rparr>"
  by (simp_all add: insert_worker_def execute_table_batch_def upt_conv_Cons group_by_columns_def
        group_by_def list_append_def columns_key_def values_of_def
        first_batch_fails_def sleep_returns_def)

text \<open>
  A batch that fails does not make the bulk insert raise, whatever the driver does: for
  records to insert, a positive \<^verbatim>\<open>batch_size\<close> and a positive \<^verbatim>\<open>concurrency\<close> the call returns
  its final report. When the sleeps between the attempts return, the statistics of each
  table hold as successful and as failed the sums of what the workers of all the batches
  of the table returned, the number of batches is the number of its batches, and the error
  list holds the errors of every batch. A batch whose \<^verbatim>\<open>max_retries \<ge> 1\<close> attempts all raise
  returns 0 successful and its whole length as failed, and the message of its last
  attempt, which is the last it recorded, is in the error list of its table.
\<close>

lemma failing_batch_is_recorded:
  fixes session :: "('v, 'r) insert_session"
  assumes "records \<noteq> []" "0 < batch_size" "0 < concurrency"
    and "\<forall>futures. mset (as_completed futures) = mset futures"
  shows "\<exists>table_stats.
     batch_insert_dicts_to_cassandra sleep session as_completed execution_time
         records batch_size concurrency retry_delay max_retries
       = Inr (final_stats (length records) table_stats execution_time)
     \<and> ((\<forall>a. a + 1 < nat max_retries \<longrightarrow> sleep (retry_delay * real (a + 1)) = None) \<longrightarrow>
        (\<forall>task \<in> set (all_tasks_of (nat batch_size) records).
           \<exists>s. map_of table_stats (fst task) = Some s
             \<and> successful s
                 = sum_list (map (\<lambda>task'. local_successful (insert_worker sleep session retry_delay max_retries task'))
                                 (filter (\<lambda>task'. fst task' = fst task)
                                         (all_tasks_of (nat batch_size) records)))
             \<and> failed s
                 = sum_list (map (\<lambda>task'. local_failed (insert_worker sleep session retry_delay max_retries task'))
                                 (filter (\<lambda>task'. fst task' = fst task)
                                         (all_tasks_of (nat batch_size) records)))
             \<and> batches s
                 = length (filter (\<lambda>task'. fst task' = fst task) (all_tasks_of (nat batch_size) records))
             \<and> set (local_errors (insert_worker sleep session retry_delay max_retries task)) \<subseteq> set (errors s)
             \<and> (0 < max_retries
                  \<and> (\<forall>a < nat max_retries.
                        fst (execute_groups (session (fst task) (snd (snd task)) a) (fst task)
                               (group_by_columns (fst (snd task)))) \<noteq> None) \<longrightarrow>
                  local_successful (insert_worker sleep session retry_delay max_retries task) = 0
                  \<and> local_failed (insert_worker sleep session retry_delay max_retries task)
                      = length (fst (snd task))
                  \<and> last (local_errors (insert_worker sleep session retry_delay max_retries task))
                      = BatchError (fst task) (snd (snd task)) (nat max_retries)
                          (the (fst (execute_groups
                                       (session (fst task) (snd (snd task)) (nat max_retries - 1))
                                       (fst task) (group_by_columns (fst (snd task))))))
                  \<and> BatchError (fst task) (snd (snd task)) (nat max_retries)
                          (the (fst (execute_groups
                                       (session (fst task) (snd (snd task)) (nat max_retries - 1))
                                       (fst task) (group_by_columns (fst (snd task))))))
                      \<in> set (errors s))))"
proof -
  let ?W = "insert_worker sleep session retry_delay max_retries"
  let ?tasks = "all_tasks_of (nat batch_size) records"
  let ?finished = "as_completed (map (\<lambda>task. (task, ?W task)) ?tasks)"
  let ?stats = "foldl record_result [] ?finished"
  have call: "batch_insert_dicts_to_cassandra sleep session as_completed execution_time
         records batch_size concurrency retry_delay max_retries
       = Inr (final_stats (length records) ?stats execution_time)"
    unfolding batch_insert_result[OF assms(1)] using assms(2,3) by simp
  have perm: "mset ?finished = mset (map (\<lambda>task. (task, ?W task)) ?tasks)"
    using assms(4) by blast
  have each: "\<exists>s. map_of ?stats (fst task) = Some s
             \<and> successful s
                 = sum_list (map (\<lambda>task'. local_successful (?W task'))
                                 (filter (\<lambda>task'. fst task' = fst task) ?tasks))
             \<and> failed s
                 = sum_list (map (\<lambda>task'. local_failed (?W task'))
                                 (filter (\<lambda>task'. fst task' = fst task) ?tasks))
             \<and> batches s = length (filter (\<lambda>task'. fst task' = fst task) ?tasks)
             \<and> set (local_errors (?W task)) \<subseteq> set (errors s)
             \<and> (0 < max_retries
                  \<and> (\<forall>a < nat max_retries.
                        fst (execute_groups (session (fst task) (snd (snd task)) a) (fst task)
                               (group_by_columns (fst (snd task)))) \<noteq> None) \<longrightarrow>
                  local_successful (?W task) = 0
                  \<and> local_failed (?W task) = length (fst (snd task))
                  \<and> last (local_errors (?W task))
                      = BatchError (fst task) (snd (snd task)) (nat max_retries)
                          (the (fst (execute_groups
                                       (session (fst task) (snd (snd task)) (nat max_retries - 1))
                                       (fst task) (group_by_columns (fst (snd task))))))
                  \<and> BatchError (fst task) (snd (snd task)) (nat max_retries)
                          (the (fst (execute_groups
                                       (session (fst task) (snd (snd task)) (nat max_retries - 1))
                                       (fst task) (group_by_columns (fst (snd task))))))
                      \<in> set (errors s))"
    if delay: "\<forall>a. a + 1 < nat max_retries \<longrightarrow> sleep (retry_delay * real (a + 1)) = None"
      and task: "task \<in> set ?tasks" for task
  proof -
    have returned: "\<forall>task' \<in> set ?tasks. raised (?W task') = None"
      using insert_worker_returns[OF delay] by blast
    obtain s where s: "map_of ?stats (fst task) = Some s"
      "successful s = sum_list (map (\<lambda>task'. local_successful (?W task'))
                                 (filter (\<lambda>task'. fst task' = fst task) ?tasks))"
      "failed s = sum_list (map (\<lambda>task'. local_failed (?W task'))
                                 (filter (\<lambda>task'. fst task' = fst task) ?tasks))"
      "batches s = length (filter (\<lambda>task'. fst task' = fst task) ?tasks)"
      "set (local_errors (?W task)) \<subseteq> set (errors s)"
      using table_stat_of_results[OF perm task returned] by auto
    have ex: "0 < max_retries
                  \<and> (\<forall>a < nat max_retries.
                        fst (execute_groups (session (fst task) (snd (snd task)) a) (fst task)
                               (group_by_columns (fst (snd task)))) \<noteq> None) \<longrightarrow>
                  local_successful (?W task) = 0
                  \<and> local_failed (?W task) = length (fst (snd task))
                  \<and> last (local_errors (?W task))
                      = BatchError (fst task) (snd (snd task)) (nat max_retries)
                          (the (fst (execute_groups
                                       (session (fst task) (snd (snd task)) (nat max_retries - 1))
                                       (fst task) (group_by_columns (fst (snd task))))))
                  \<and> BatchError (fst task) (snd (snd task)) (nat max_retries)
                          (the (fst (execute_groups
                                       (session (fst task) (snd (snd task)) (nat max_retries - 1))
                                       (fst task) (group_by_columns (fst (snd task))))))
                      \<in> set (errors s)"
    proof
      assume h: "0 < max_retries
                  \<and> (\<forall>a < nat max_retries.
                        fst (execute_groups (session (fst task) (snd (snd task)) a) (fst task)
                               (group_by_columns (fst (snd task)))) \<noteq> None)"
      note e = insert_worker_exhausted[where session = session and task = task and sleep = sleep
          and max_retries = max_retries and retry_delay = retry_delay,
          OF conjunct1[OF h] conjunct2[OF h] delay]
      note e1 = e[THEN conjunct1]
      note e2 = e[THEN conjunct2, THEN conjunct1]
      note ne = e[THEN conjunct2, THEN conjunct2, THEN conjunct1]
      note l = e[THEN conjunct2, THEN conjunct2, THEN conjunct2]
      have "last (local_errors (?W task)) \<in> set (errors s)"
        using last_in_set[OF ne] s(5) by blast
      then have m: "BatchError (fst task) (snd (snd task)) (nat max_retries)
                          (the (fst (execute_groups
                                       (session (fst task) (snd (snd task)) (nat max_retries - 1))
                                       (fst task) (group_by_columns (fst (snd task))))))
                      \<in> set (errors s)"
        unfolding l .
      show "local_successful (?W task) = 0
                  \<and> local_failed (?W task) = length (fst (snd task))
                  \<and> last (local_errors (?W task))
                      = BatchError (fst task) (snd (snd task)) (nat max_retries)
                          (the (fst (execute_groups
                                       (session (fst task) (snd (snd task)) (nat max_retries - 1))
                                       (fst task) (group_by_columns (fst (snd task))))))
                  \<and> BatchError (fst task) (snd (snd task)) (nat max_retries)
                          (the (fst (execute_groups
                                       (session (fst task) (snd (snd task)) (nat max_retries - 1))
                                       (fst task) (group_by_columns (fst (snd task))))))
                      \<in> set (errors s)"
        using e1 e2 l m by (intro conjI)
    qed
    show ?thesis using s ex by (intro exI[of _ s] conjI)
  qed
  show ?thesis using call each by (intro exI[of _ ?stats] conjI impI ballI)
qed


lemma failing_batch_is_recorded_example:
  "\<exists>table_stats s.
     batch_insert_dicts_to_cassandra sleep_returns (first_batch_fails :: (int, unit) insert_session) submission_order 2
         [(''t'', [(''a'', 1)]), (''t'', [(''a'', 2)])] 1 10 (1 / 2) 3
       = Inr (final_stats 2 table_stats 2)
     \<and> map_of table_stats ''t'' = Some s
     \<and> successful s = 1 \<and> failed s = 1 \<and> batches s = 2
     \<and> BatchError ''t'' 1 3 ''WriteTimeout'' \<in> set (errors s)"
proof -
  let ?session = "first_batch_fails :: (int, unit) insert_session"
  let ?records = "[(''t'', [(''a'', 1 :: int)]), (''t'', [(''a'', 2)])]"
  let ?t1 = "(''t'', [[(''a'', 1 :: int)]], Suc 0)"
  have h1: "?records \<noteq> []" by simp
  have h2: "(0::int) < 1" and h3: "(0::int) < 10" by simp_all
  have h4: "\<forall>futures. mset (submission_order futures) = mset futures"
    by (simp add: submission_order_perm)
  note t = failing_batch_is_recorded[OF h1 h2 h3 h4, where session = ?session and sleep = sleep_returns
      and execution_time = 2 and retry_delay = "1 / 2" and max_retries = 3]
  from t obtain table_stats where ts:
    "batch_insert_dicts_to_cassandra sleep_returns ?session submission_order 2 ?records 1 10 (1 / 2) 3
       = Inr (final_stats (length ?records) table_stats 2)"
    "(\<forall>a. a + 1 < nat 3 \<longrightarrow> sleep_returns (1 / 2 * real (a + 1)) = None) \<longrightarrow>
     (\<forall>task \<in> set (all_tasks_of (nat 1) ?records).
           \<exists>s. map_of table_stats (fst task) = Some s
             \<and> successful s
                 = sum_list (map (\<lambda>task'. local_successful (insert_worker sleep_returns ?session (1 / 2) 3 task'))
                                 (filter (\<lambda>task'. fst task' = fst task)
                                         (all_tasks_of (nat 1) ?records)))
             \<and> failed s
                 = sum_list (map (\<lambda>task'. local_failed (insert_worker sleep_returns ?session (1 / 2) 3 task'))
                                 (filter (\<lambda>task'. fst task' = fst task)
                                         (all_tasks_of (nat 1) ?records)))
             \<and> batches s
                 = length (filter (\<lambda>task'. fst task' = fst task) (all_tasks_of (nat 1) ?records))
             \<and> set (local_errors (insert_worker sleep_returns ?session (1 / 2) 3 task)) \<subseteq> set (errors s)
             \<and> (0 < (3::int)
                  \<and> (\<forall>a < nat 3.
                        fst (execute_groups (?session (fst task) (snd (snd task)) a) (fst task)
                               (group_by_columns (fst (snd task)))) \<noteq> None) \<longrightarrow>
                  local_successful (insert_worker sleep_returns ?session (1 / 2) 3 task) = 0
                  \<and> local_failed (insert_worker sleep_returns ?session (1 / 2) 3 task)
                      = length (fst (snd task))
                  \<and> last (local_errors (insert_worker sleep_returns ?session (1 / 2) 3 task))
                      = BatchError (fst task) (snd (snd task)) (nat 3)
                          (the (fst (execute_groups
                                       (?session (fst task) (snd (snd task)) (nat 3 - 1))
                                       (fst task) (group_by_columns (fst (snd task))))))
                  \<and> BatchError (fst task) (snd (snd task)) (nat 3)
                          (the (fst (execute_groups
                                       (?session (fst task) (snd (snd task)) (nat 3 - 1))
                                       (fst task) (group_by_columns (fst (snd task))))))
                      \<in> set (errors s)))"
    by (elim exE conjE)
  have delay: "\<forall>a. a + 1 < nat 3 \<longrightarrow> sleep_returns (1 / 2 * real (a + 1)) = None"
    by (simp add: sleep_returns_def)
  have "?t1 \<in> set (all_tasks_of (nat 1) ?records)"
    unfolding two_batches_example by simp
  from mp[OF ts(2) delay, rule_format, OF this] obtain s where s:
    "map_of table_stats ''t'' = Some s"
    "successful s
       = sum_list (map (\<lambda>task'. local_successful (insert_worker sleep_returns ?session (1 / 2) 3 task'))
                       (filter (\<lambda>task'. fst task' = ''t'') (all_tasks_of (nat 1) ?records)))"
    "failed s
       = sum_list (map (\<lambda>task'. local_failed (insert_worker sleep_returns ?session (1 / 2) 3 task'))
                       (filter (\<lambda>task'. fst task' = ''t'') (all_tasks_of (nat 1) ?records)))"
    "batches s = length (filter (\<lambda>task'. fst task' = ''t'') (all_tasks_of (nat 1) ?records))"
    "set (local_errors (insert_worker sleep_returns ?session (1 / 2) 3 ?t1)) \<subseteq> set (errors s)"
    by auto
  have a: "successful s = 1" unfolding s(2) two_batches_example
    by (simp add: first_batch_fails_example)
  have b: "failed s = 1" unfolding s(3) two_batches_example
    by (simp add: first_batch_fails_example)
  have c: "batches s = 2" unfolding s(4) two_batches_example by simp
  have d: "BatchError ''t'' 1 3 ''WriteTimeout'' \<in> set (errors s)"
    using s(5) unfolding first_batch_fails_example by simp
  have len: "length ?records = 2" by simp
  have call: "batch_insert_dicts_to_cassandra sleep_returns ?session submission_order 2 ?records 1 10 (1 / 2) 3
       = Inr (final_stats 2 table_stats 2)"
    using ts(1) unfolding len .
  show ?thesis using call s(1) a b c d by (intro exI[of _ table_stats] exI[of _ s] conjI)
qed

section \<open>The properties\<close>

text \<open>
  C2. For every non-empty batch the pair (successful, failed) a batch worker returns adds
  up to the length of the batch. The delete worker does so for every \<^verbatim>\<open>max_retries\<close>
  whenever it returns (\<open>execute_delete_batch_counts\<close>: its last line returns
  \<^verbatim>\<open>0, len(rows_batch)\<close> when the loop ends without a return), and the insert worker does so
  whenever it returns with a positive \<^verbatim>\<open>max_retries\<close> (\<open>execute_table_batch_counts\<close>). With
  \<^verbatim>\<open>max_retries = 0\<close> the loop of the insert worker has no iteration and the worker returns
  0 successful and 0 failed for a batch of one record, whatever the driver and the sleep
  do: the record is counted nowhere.
\<close>

theorem insert_worker_drops_batch_without_attempts:
  "local_successful (execute_table_batch sleep session retry_delay 0 table_name [record] batch_num)
     + local_failed (execute_table_batch sleep session retry_delay 0 table_name [record] batch_num)
   \<noteq> length [record]"
  by (simp add: execute_table_batch_def)

text \<open>
  C8. Within one insert batch the records are grouped by the sorted tuple of their column
  names. The groups have distinct keys; each group is the non-empty list of the batch's
  records with its key, in batch order, so two records with the same key are in the same
  group and two records with different keys are in different groups; for records with
  distinct column names the keys are equal exactly when the column sets are. The batch
  statement built for a group is one grouped write with one row for each record of the
  group. An attempt prepares, fills and executes the grouped write of each group in
  order and stops at the first request that raises: it succeeds exactly when the write of
  every group returns, and the statements it hands to \<^verbatim>\<open>session.execute\<close> are exactly those of
  the groups before the first write that does not return, and of that group too when its
  statement was prepared and filled; they are all the groups when the attempt succeeds.
  All groups belong to the one retry unit of the batch: with a positive \<^verbatim>\<open>max_retries\<close> the
  worker makes a first attempt over the whole list of groups and repeats the attempt over
  the whole list, after a sleep, as long as it fails, until an attempt succeeds, the last
  attempt allowed has failed, or the sleep raises; its counts, its errors and its effects
  are those of these attempts and of nothing else. Three records two of which differ in
  their column sets give at least two groups.
\<close>

theorem column_groups_of_a_batch:
  fixes ex :: "('v, 'r) request \<Rightarrow> string option" and session :: "('v, 'r) insert_session"
  shows
  "distinct (map fst (group_by_columns batch_data))
   \<and> (\<forall>g \<in> set (group_by_columns batch_data).
         snd g \<noteq> [] \<and> snd g = filter (\<lambda>r. columns_key r = fst g) batch_data)
   \<and> (\<forall>r \<in> set batch_data.
         (columns_key r, filter (\<lambda>r'. columns_key r' = columns_key r) batch_data)
           \<in> set (group_by_columns batch_data))
   \<and> (\<forall>r1 \<in> set batch_data. \<forall>r2 \<in> set batch_data.
         distinct (map fst r1) \<and> distinct (map fst r2) \<longrightarrow>
         (columns_key r1 = columns_key r2 \<longleftrightarrow> fst ` set r1 = fst ` set r2))
   \<and> (\<forall>g \<in> set (group_by_columns batch_data).
         ((\<exists>rows. fill_batch ex table_name (fst g) (snd g) = Inr rows)
            = (\<forall>record \<in> set (snd g).
                 ex (AddInsert table_name (fst g) (map (\<lambda>col. the (map_of record col)) (fst g))) = None))
         \<and> (\<forall>rows. fill_batch ex table_name (fst g) (snd g) = Inr rows \<longrightarrow>
                (InsertBatch table_name (fst g) rows :: ('v, 'r) statement)
                  = insert_statement table_name g)
         \<and> statement_size (insert_statement table_name g :: ('v, 'r) statement) = length (snd g))
   \<and> ((fst (execute_groups ex table_name (group_by_columns batch_data)) = None)
        = (\<forall>g \<in> set (group_by_columns batch_data). group_returns ex table_name g))
   \<and> snd (execute_groups ex table_name (group_by_columns batch_data))
        = map (\<lambda>g. Execute (insert_statement table_name g))
              (sent_groups ex table_name (group_by_columns batch_data))
   \<and> (\<exists>n \<le> length (group_by_columns batch_data).
        sent_groups ex table_name (group_by_columns batch_data) = take n (group_by_columns batch_data))
   \<and> ((\<forall>g \<in> set (group_by_columns batch_data). group_returns ex table_name g) \<longrightarrow>
        sent_groups ex table_name (group_by_columns batch_data) = group_by_columns batch_data)
   \<and> (0 < max_retries \<longrightarrow>
        (\<exists>n < nat max_retries.
           (\<forall>a < n. fst (execute_groups (session table_name batch_num a) table_name
                            (group_by_columns batch_data)) \<noteq> None
                    \<and> sleep (retry_delay * real (a + 1)) = None)
           \<and> (fst (execute_groups (session table_name batch_num n) table_name
                      (group_by_columns batch_data)) = None
                \<or> int n = max_retries - 1 \<or> sleep (retry_delay * real (n + 1)) \<noteq> None)
           \<and> execute_table_batch sleep session retry_delay max_retries table_name batch_data batch_num =
             \<lparr>local_successful =
                 (if fst (execute_groups (session table_name batch_num n) table_name
                            (group_by_columns batch_data)) = None
                  then length batch_data else 0),
               local_failed =
                 (if fst (execute_groups (session table_name batch_num n) table_name
                            (group_by_columns batch_data)) \<noteq> None \<and> int n = max_retries - 1
                  then length batch_data else 0),
               local_errors =
                 map (\<lambda>a. BatchError table_name batch_num (a + 1)
                            (the (fst (execute_groups (session table_name batch_num a) table_name
                                         (group_by_columns batch_data)))))
                     (if fst (execute_groups (session table_name batch_num n) table_name
                                (group_by_columns batch_data)) = None
                      then [0..<n] else [0..<n + 1]),
               effects =
                 concat (map (\<lambda>a. snd (execute_groups (session table_name batch_num a) table_name
                                          (group_by_columns batch_data))
                                   @ [Sleep (retry_delay * real (a + 1))])
                             [0..<n])
                 @ snd (execute_groups (session table_name batch_num n) table_name
                          (group_by_columns batch_data)),
               raised =
                 (if fst (execute_groups (session table_name batch_num n) table_name
                            (group_by_columns batch_data)) = None \<or> int n = max_retries - 1
                  then None else sleep (retry_delay * real (n + 1)))\<rparr>))
   \<and> local_successful (execute_table_batch sleep session retry_delay max_retries table_name batch_data batch_num)
        \<in> {0, length batch_data}
   \<and> local_failed (execute_table_batch sleep session retry_delay max_retries table_name batch_data batch_num)
        \<in> {0, length batch_data}
   \<and> (length batch_data = 3 \<and>
        (\<exists>r1 \<in> set batch_data. \<exists>r2 \<in> set batch_data. columns_key r1 \<noteq> columns_key r2) \<longrightarrow>
        2 \<le> length (group_by_columns batch_data))"
proof -
  have w: "well_keyed (group_by_columns batch_data)" by (rule well_keyed_group_by_columns)
  have 1: "distinct (map fst (group_by_columns batch_data))"
    by (simp add: group_by_columns_def distinct_group_by)
  have 2: "\<forall>g \<in> set (group_by_columns batch_data).
         snd g \<noteq> [] \<and> snd g = filter (\<lambda>r. columns_key r = fst g) batch_data"
  proof
    fix g assume "g \<in> set (group_by_columns batch_data)"
    then have "(fst g, snd g) \<in> set (group_by columns_key (\<lambda>record. record) batch_data [])"
      by (simp add: group_by_columns_def)
    from group_by_members[OF this]
    show "snd g \<noteq> [] \<and> snd g = filter (\<lambda>r. columns_key r = fst g) batch_data" by auto
  qed
  have 3: "\<forall>r \<in> set batch_data.
         (columns_key r, filter (\<lambda>r'. columns_key r' = columns_key r) batch_data)
           \<in> set (group_by_columns batch_data)"
    using group_by_complete[of _ batch_data columns_key "\<lambda>record. record"]
    by (simp add: group_by_columns_def)
  have 4: "\<forall>r1 \<in> set batch_data. \<forall>r2 \<in> set batch_data.
         distinct (map fst r1) \<and> distinct (map fst r2) \<longrightarrow>
         (columns_key r1 = columns_key r2 \<longleftrightarrow> fst ` set r1 = fst ` set r2)"
    using columns_key_eq_iff by blast
  have 5: "\<forall>g \<in> set (group_by_columns batch_data).
         ((\<exists>rows. fill_batch ex table_name (fst g) (snd g) = Inr rows)
            = (\<forall>record \<in> set (snd g).
                 ex (AddInsert table_name (fst g) (map (\<lambda>col. the (map_of record col)) (fst g))) = None))
         \<and> (\<forall>rows. fill_batch ex table_name (fst g) (snd g) = Inr rows \<longrightarrow>
                (InsertBatch table_name (fst g) rows :: ('v, 'r) statement)
                  = insert_statement table_name g)
         \<and> statement_size (insert_statement table_name g :: ('v, 'r) statement) = length (snd g)"
  proof
    fix g assume g: "g \<in> set (group_by_columns batch_data)"
    then have k: "\<forall>r \<in> set (snd g). columns_key r = fst g"
      using w by (simp add: well_keyed_def)
    have a: "(\<exists>rows. fill_batch ex table_name (fst g) (snd g) = Inr rows)
            = (\<forall>record \<in> set (snd g).
                 ex (AddInsert table_name (fst g) (map (\<lambda>col. the (map_of record col)) (fst g))) = None)"
    proof (cases "\<forall>record \<in> set (snd g).
                 ex (AddInsert table_name (fst g) (map (\<lambda>col. the (map_of record col)) (fst g))) = None")
      case True
      have "fill_batch ex table_name (fst g) (snd g)
            = Inr (map (\<lambda>r. map (\<lambda>c. the (map_of r c)) (fst g)) (snd g))"
        using fill_batch_group[OF k, of ex table_name] unfolding if_P[OF True] .
      then show ?thesis using True by simp
    next
      case False
      have "\<exists>e. fill_batch ex table_name (fst g) (snd g) = Inl e"
        using fill_batch_group[OF k, of ex table_name] unfolding if_not_P[OF False] .
      then show ?thesis using False by auto
    qed
    have b: "\<forall>rows. fill_batch ex table_name (fst g) (snd g) = Inr rows \<longrightarrow>
                (InsertBatch table_name (fst g) rows :: ('v, 'r) statement) = insert_statement table_name g"
      using fill_batch_rows[OF k, of ex table_name] by (auto simp: insert_statement_def)
    have c: "statement_size (insert_statement table_name g :: ('v, 'r) statement) = length (snd g)"
      by (simp add: insert_statement_def)
    show "((\<exists>rows. fill_batch ex table_name (fst g) (snd g) = Inr rows)
            = (\<forall>record \<in> set (snd g).
                 ex (AddInsert table_name (fst g) (map (\<lambda>col. the (map_of record col)) (fst g))) = None))
         \<and> (\<forall>rows. fill_batch ex table_name (fst g) (snd g) = Inr rows \<longrightarrow>
                (InsertBatch table_name (fst g) rows :: ('v, 'r) statement)
                  = insert_statement table_name g)
         \<and> statement_size (insert_statement table_name g :: ('v, 'r) statement) = length (snd g)"
      using a b c by (intro conjI)
  qed
  have 6: "(fst (execute_groups ex table_name (group_by_columns batch_data)) = None)
        = (\<forall>g \<in> set (group_by_columns batch_data). group_returns ex table_name g)"
    by (rule execute_groups_ok_iff[OF w])
  have 7: "snd (execute_groups ex table_name (group_by_columns batch_data))
        = map (\<lambda>g. Execute (insert_statement table_name g))
              (sent_groups ex table_name (group_by_columns batch_data))"
    by (rule execute_groups_sent[OF w])
  have 8: "\<exists>n \<le> length (group_by_columns batch_data).
        sent_groups ex table_name (group_by_columns batch_data) = take n (group_by_columns batch_data)"
    by (rule sent_groups_prefix)
  have 9: "(\<forall>g \<in> set (group_by_columns batch_data). group_returns ex table_name g) \<longrightarrow>
        sent_groups ex table_name (group_by_columns batch_data) = group_by_columns batch_data"
    using sent_groups_all by blast
  note 10 = execute_table_batch_run[where session = session and table_name = table_name
      and batch_num = batch_num and batch_data = batch_data and sleep = sleep
      and retry_delay = retry_delay and max_retries = max_retries]
  have 11: "local_successful (execute_table_batch sleep session retry_delay max_retries table_name batch_data batch_num)
        \<in> {0, length batch_data}
   \<and> local_failed (execute_table_batch sleep session retry_delay max_retries table_name batch_data batch_num)
        \<in> {0, length batch_data}"
    unfolding execute_table_batch_def by (rule insert_attempts_each_count) simp_all
  have 12: "length batch_data = 3 \<and>
        (\<exists>r1 \<in> set batch_data. \<exists>r2 \<in> set batch_data. columns_key r1 \<noteq> columns_key r2) \<longrightarrow>
        2 \<le> length (group_by_columns batch_data)"
    using two_groups by blast
  show ?thesis
    using 1 2 3 4 5 6 7 8 9 11 12
    by (intro conjI impI 10) (simp_all only:)
qed

theorem column_groups_of_a_batch_witness:
  "length [[(''id'', 1::int), (''name'', 2)], [(''name'', 3), (''id'', 4)], [(''id'', 5)]] = 3
   \<and> columns_key [(''id'', 1::int), (''name'', 2)] \<noteq> columns_key [(''id'', 5::int)]
   \<and> columns_key [(''id'', 1::int), (''name'', 2)] = columns_key [(''name'', 3), (''id'', 4)]
   \<and> 2 \<le> length (group_by_columns [[(''id'', 1::int), (''name'', 2)], [(''name'', 3), (''id'', 4)], [(''id'', 5)]])
   \<and> group_by_columns [[(''id'', 1::int), (''name'', 2)], [(''name'', 3), (''id'', 4)], [(''id'', 5)]]
       = [([''id'', ''name''], [[(''id'', 1), (''name'', 2)], [(''name'', 3), (''id'', 4)]]),
          ([''id''], [[(''id'', 5)]])]
   \<and> execute_table_batch sleep_returns (insert_ok :: (int, unit) insert_session) (1 / 2) 3 ''t''
         [[(''id'', 1), (''name'', 2)], [(''name'', 3), (''id'', 4)], [(''id'', 5)]] 1
       = \<lparr>local_successful = 3, local_failed = 0, local_errors = [],
          effects = [Execute (InsertBatch ''t'' [''id'', ''name''] [[1, 2], [4, 3]]),
                     Execute (InsertBatch ''t'' [''id''] [[5]])],
          raised = None\<rparr>"
proof -
  let ?b = "[[(''id'', 1::int), (''name'', 2)], [(''name'', 3), (''id'', 4)], [(''id'', 5)]]"
  have k: "columns_key [(''id'', 1::int), (''name'', 2)] \<noteq> columns_key [(''id'', 5::int)]"
    "columns_key [(''id'', 1::int), (''name'', 2)] = columns_key [(''name'', 3), (''id'', 4)]"
    by (simp_all add: columns_key_def)
  have h: "length ?b = 3 \<and> (\<exists>r1 \<in> set ?b. \<exists>r2 \<in> set ?b. columns_key r1 \<noteq> columns_key r2)"
    using k(1) by auto
  have g: "group_by_columns ?b
       = [([''id'', ''name''], [[(''id'', 1), (''name'', 2)], [(''name'', 3), (''id'', 4)]]),
          ([''id''], [[(''id'', 5)]])]"
    by (simp add: group_by_columns_def group_by_def list_append_def columns_key_def)
  note t = column_groups_of_a_batch[where batch_data = ?b and ex = "\<lambda>request. None :: string option"
      and table_name = "''t''" and max_retries = 3
      and session = "insert_ok :: (int, unit) insert_session" and sleep = sleep_returns
      and retry_delay = "1 / 2" and batch_num = 1]
  have two: "2 \<le> length (group_by_columns ?b)"
    using t h by blast
  have run: "execute_table_batch sleep_returns (insert_ok :: (int, unit) insert_session) (1 / 2) 3 ''t'' ?b 1
       = \<lparr>local_successful = 3, local_failed = 0, local_errors = [],
          effects = [Execute (InsertBatch ''t'' [''id'', ''name''] [[1, 2], [4, 3]]),
                     Execute (InsertBatch ''t'' [''id''] [[5]])],
          raised = None\<rparr>"
    by (simp add: execute_table_batch_def upt_conv_Cons g values_of_def insert_ok_def)
  show ?thesis using k g two run by simp
qed

text \<open>
  C3. With \<^verbatim>\<open>max_retries = N\<close> and a batch whose grouped execution always fails, a worker
  makes exactly \<open>N\<close> attempts, sleeps \<^verbatim>\<open>retry_delay * k\<close> for \<open>k = 1, \<dots>, N - 1\<close> between
  them and then marks the batch failed. For \<open>N \<ge> 1\<close> and sleeps that return both workers
  do so (\<open>insert_worker_retries\<close>, \<open>delete_worker_retries\<close>; the delays increase strictly
  for a positive \<^verbatim>\<open>retry_delay\<close> by \<open>backoff_increasing\<close>). For \<open>N = 0\<close> the delete worker makes no
  attempt and returns the batch as failed, while the insert worker makes no attempt and
  returns it with 0 failed, no error and no effect: the batch is never marked failed.
\<close>

theorem insert_worker_never_marks_failed_without_attempts:
  "local_failed (execute_table_batch sleep session retry_delay 0 table_name (record # batch_data) batch_num) = 0
   \<and> local_errors (execute_table_batch sleep session retry_delay 0 table_name (record # batch_data) batch_num) = []
   \<and> effects (execute_table_batch sleep session retry_delay 0 table_name (record # batch_data) batch_num) = []
   \<and> execute_delete_batch sleep session' retry_delay 0 table_name (row # rows_batch) batch_num'
       = (Inr (0, length (row # rows_batch)), [])"
  by (simp add: execute_table_batch_def execute_delete_batch_def)

text \<open>
  C7. No batch straddles a page boundary. For a positive \<^verbatim>\<open>batch_size\<close> the batches of a
  page of \<open>n\<close> rows are, in order, the \<open>\<lceil>n / batch_size\<rceil>\<close> consecutive slices of the page; all but
  the last have \<^verbatim>\<open>batch_size\<close> rows, the last has between 1 and \<^verbatim>\<open>batch_size\<close>, and they are
  numbered from 1. Every batch handed to a worker is a batch of one page of the scan, and
  every grouped delete that \<^verbatim>\<open>process_table\<close> sends deletes one such batch. A table of 5
  rows read with page size 2 comes in pages of 2, 2 and 1 rows, and with batch size 2 the
  batches have 2, 2 and 1 rows.
\<close>

theorem pages_split_into_batches:
  assumes "0 < batch_size"
  shows "(\<exists>cs. chunks batch_size rows = Inr cs
            \<and> concat (map fst cs) = rows
            \<and> length cs = (length rows + nat batch_size - 1) div nat batch_size
            \<and> (\<forall>b \<in> set (butlast (map fst cs)). length b = nat batch_size)
            \<and> (\<forall>b \<in> set (map fst cs). 0 < length b \<and> length b \<le> nat batch_size)
            \<and> map snd cs = [1..<length cs + 1])
       \<and> (\<forall>task \<in> set (table_tasks (nat batch_size) table_name rs).
             \<exists>page \<in> set (pages_of rs). fst task \<in> set (batches_of (nat batch_size) page))
       \<and> (0 < concurrency
            \<and> (\<forall>futures. mset (batches_completed env futures) = mset futures)
            \<and> table_name \<in> fst ` set tables_metadata
            \<and> select_keys env table_name page_size = Inr rs \<longrightarrow>
          set (executed (snd (snd (process_table env tables_metadata page_size batch_size concurrency
                                     retry_delay max_retries table_name))))
            \<subseteq> (\<lambda>task. DeleteBatch table_name (fst task)) ` set (table_tasks (nat batch_size) table_name rs))
       \<and> (length table_rows = 5 \<longrightarrow>
            map length (pages_of (scan_keys 2 table_rows)) = [2, 2, 1]
            \<and> map (\<lambda>task. length (fst task)) (table_tasks 2 table_name (scan_keys 2 table_rows)) = [2, 2, 1])"
proof -
  have n: "0 < nat batch_size" using assms by simp
  obtain cs where cs: "chunks batch_size rows = Inr cs"
    "map fst cs = batches_of (nat batch_size) rows" "map snd cs = [1..<length cs + 1]"
    using chunks_positive[OF assms] by blast
  have len: "length cs = length (batches_of (nat batch_size) rows)"
    using cs(2) by (metis length_map)
  have a: "concat (map fst cs) = rows"
    unfolding cs(2) by (rule concat_batches_of[OF n])
  have b: "length cs = (length rows + nat batch_size - 1) div nat batch_size"
    unfolding len by (rule length_batches_of[OF n])
  have c: "\<forall>b \<in> set (butlast (map fst cs)). length b = nat batch_size"
    unfolding cs(2) using batches_of_butlast_full[OF n] by blast
  have d: "\<forall>b \<in> set (map fst cs). 0 < length b \<and> length b \<le> nat batch_size"
    unfolding cs(2) using batches_of_sizes[OF n] by blast
  have 1: "\<exists>cs. chunks batch_size rows = Inr cs
            \<and> concat (map fst cs) = rows
            \<and> length cs = (length rows + nat batch_size - 1) div nat batch_size
            \<and> (\<forall>b \<in> set (butlast (map fst cs)). length b = nat batch_size)
            \<and> (\<forall>b \<in> set (map fst cs). 0 < length b \<and> length b \<le> nat batch_size)
            \<and> map snd cs = [1..<length cs + 1]"
    using cs(1) a b c d cs(3) by (intro exI[of _ cs] conjI)
  have 2: "\<forall>task \<in> set (table_tasks (nat batch_size) table_name rs).
             \<exists>page \<in> set (pages_of rs). fst task \<in> set (batches_of (nat batch_size) page)"
    using table_tasks_in_a_page by blast
  have 3: "0 < concurrency
            \<and> (\<forall>futures. mset (batches_completed env futures) = mset futures)
            \<and> table_name \<in> fst ` set tables_metadata
            \<and> select_keys env table_name page_size = Inr rs \<longrightarrow>
          set (executed (snd (snd (process_table env tables_metadata page_size batch_size concurrency
                                     retry_delay max_retries table_name))))
            \<subseteq> (\<lambda>task. DeleteBatch table_name (fst task)) ` set (table_tasks (nat batch_size) table_name rs)"
  proof
    assume h: "0 < concurrency
            \<and> (\<forall>futures. mset (batches_completed env futures) = mset futures)
            \<and> table_name \<in> fst ` set tables_metadata
            \<and> select_keys env table_name page_size = Inr rs"
    have eff: "set (snd (snd (process_table env tables_metadata page_size batch_size concurrency
                                     retry_delay max_retries table_name)))
           = (\<Union>task \<in> set (table_tasks (nat batch_size) table_name rs).
                 set (snd (delete_worker env retry_delay max_retries table_name task)))"
      using process_table_result[OF assms, of concurrency env table_name tables_metadata page_size rs
              retry_delay max_retries] h by blast
    show "set (executed (snd (snd (process_table env tables_metadata page_size batch_size concurrency
                                     retry_delay max_retries table_name))))
            \<subseteq> (\<lambda>task. DeleteBatch table_name (fst task)) ` set (table_tasks (nat batch_size) table_name rs)"
    proof
      fix s
      assume "s \<in> set (executed (snd (snd (process_table env tables_metadata page_size batch_size
                                     concurrency retry_delay max_retries table_name))))"
      then have "Execute s \<in> set (snd (snd (process_table env tables_metadata page_size batch_size
                                     concurrency retry_delay max_retries table_name)))"
        by (simp add: set_executed)
      then obtain task where task: "task \<in> set (table_tasks (nat batch_size) table_name rs)"
        "Execute s \<in> set (snd (delete_worker env retry_delay max_retries table_name task))"
        unfolding eff by blast
      then have "s \<in> set (executed (snd (delete_worker env retry_delay max_retries table_name task)))"
        by (simp add: set_executed)
      then have "s = DeleteBatch table_name (fst task)"
        using delete_worker_executed[of env retry_delay max_retries table_name task] by blast
      then show "s \<in> (\<lambda>task. DeleteBatch table_name (fst task)) ` set (table_tasks (nat batch_size) table_name rs)"
        using task(1) by blast
    qed
  qed
  have 4: "length table_rows = 5 \<longrightarrow>
            map length (pages_of (scan_keys 2 table_rows)) = [2, 2, 1]
            \<and> map (\<lambda>task. length (fst task)) (table_tasks 2 table_name (scan_keys 2 table_rows)) = [2, 2, 1]"
  proof
    assume "length table_rows = 5"
    then obtain a b c d e where r: "table_rows = [a, b, c, d, e]"
      using list_of_five by blast
    have p: "pages_of (scan_keys 2 table_rows) = [[a, b], [c, d], [e]]"
      by (simp add: pages_of_scan_keys r batches_of_five)
    have np: "numbered_pages 1 (scan_keys 2 table_rows) = [(1, [a, b]), (2, [c, d]), (3, [e])]"
      by (simp add: scan_keys_def r batches_of_five)
    have t: "map fst (table_tasks 2 table_name (scan_keys 2 table_rows)) = [[a, b], [c, d], [e]]"
      unfolding table_tasks_def np
      by (simp add: page_tasks_batches batches_of_rec batches_of_Nil)
    have "map (\<lambda>task. length (fst task)) (table_tasks 2 table_name (scan_keys 2 table_rows))
          = map length (map fst (table_tasks 2 table_name (scan_keys 2 table_rows)))"
      by (simp add: comp_def)
    then show "map length (pages_of (scan_keys 2 table_rows)) = [2, 2, 1]
            \<and> map (\<lambda>task. length (fst task)) (table_tasks 2 table_name (scan_keys 2 table_rows)) = [2, 2, 1]"
      unfolding t p by simp
  qed
  show ?thesis using 1 2 3 4 by blast
qed


theorem pages_split_into_batches_witness:
  "(0::int) < 2
   \<and> length [1, 2, 3, 4, 5 :: nat] = 5
   \<and> map length (pages_of (scan_keys 2 [1, 2, 3, 4, 5 :: nat])) = [2, 2, 1]
   \<and> map (\<lambda>task. length (fst task)) (table_tasks 2 ''t'' (scan_keys 2 [1, 2, 3, 4, 5 :: nat])) = [2, 2, 1]
   \<and> map statement_size
         (executed (snd (snd (process_table (one_table_env [1, 2, 3, 4, 5] delete_ok)
            [(''t'', \<lparr>partition_key = [''id''], clustering_key = []\<rparr>)] 2 2 10 (1 / 2) 3 ''t''))))
       = [2, 2, 1]"
proof -
  let ?env = "one_table_env [1, 2, 3, 4, 5] delete_ok"
  let ?md = "[(''t'', \<lparr>partition_key = [''id''], clustering_key = []\<rparr>)]"
  have h: "(0::int) < 2" by simp
  have l: "length [1, 2, 3, 4, 5 :: nat] = 5" by simp
  have s: "map length (pages_of (scan_keys 2 [1, 2, 3, 4, 5 :: nat])) = [2, 2, 1]
     \<and> map (\<lambda>task. length (fst task)) (table_tasks 2 ''t'' (scan_keys 2 [1, 2, 3, 4, 5 :: nat])) = [2, 2, 1]"
    using pages_split_into_batches[OF h, of "[1, 2, 3, 4, 5 :: nat]" "''t''" "scan_keys 2 [1, 2, 3, 4, 5]"
            10 ?env ?md 2 "1 / 2" 3 "[1, 2, 3, 4, 5 :: nat]"] l
    by blast
  have e: "map statement_size
         (executed (snd (snd (process_table ?env ?md 2 2 10 (1 / 2) 3 ''t''))))
       = [2, 2, 1]"
    unfolding process_table_scenario by simp
  show ?thesis using h l s e by blast
qed

text \<open>
  C6, as the code has it. \<^verbatim>\<open>process_table\<close> adds to its count what each batch worker
  returns as successful, so for a positive \<^verbatim>\<open>batch_size\<close> and \<^verbatim>\<open>concurrency\<close> the deleted
  count of a table whose scan starts is the number of rows in the batches whose grouped
  delete succeeds: the batches for which the driver answers the requests of one of the
  \<^verbatim>\<open>max_retries\<close> attempts without raising, the sleeps before that attempt having returned.
  The batches hold the rows seen on the pages of the scan, so the count is at most the
  number of rows seen, equal to it when the delete of every batch succeeds, and 0 when the
  scan yields no rows. The counter that \<^verbatim>\<open>delete_all_rows\<close> logs grows by the length of every
  batch, whatever its deletes do, and is the number of rows seen on the pages.
\<close>

theorem deleted_count_of_a_table:
  assumes "0 < batch_size" "0 < concurrency"
    and "\<forall>futures. mset (batches_completed env futures) = mset futures"
    and "table_name \<in> fst ` set tables_metadata"
    and "select_keys env table_name page_size = Inr rs"
  shows "fst (snd (process_table env tables_metadata page_size batch_size concurrency retry_delay
                     max_retries table_name))
           = sum_list (map (\<lambda>task. if delete_succeeds env retry_delay max_retries table_name task
                                    then length (fst task) else 0)
                           (table_tasks (nat batch_size) table_name rs))
       \<and> sum_list (map (\<lambda>task. length (fst task)) (table_tasks (nat batch_size) table_name rs))
           = length (concat (pages_of rs))
       \<and> fst (snd (process_table env tables_metadata page_size batch_size concurrency retry_delay
                     max_retries table_name))
           \<le> length (concat (pages_of rs))
       \<and> ((\<forall>task \<in> set (table_tasks (nat batch_size) table_name rs).
              delete_succeeds env retry_delay max_retries table_name task) \<longrightarrow>
           fst (snd (process_table env tables_metadata page_size batch_size concurrency retry_delay
                       max_retries table_name))
             = length (concat (pages_of rs)))
       \<and> (pages_of rs = [] \<longrightarrow>
           fst (snd (process_table env tables_metadata page_size batch_size concurrency retry_delay
                       max_retries table_name)) = 0)
       \<and> (keyspace_tables table_name = Some table_metadata
            \<and> partition_key table_metadata @ clustering_key table_metadata \<noteq> []
            \<and> scan table_name page_size = Inr rs \<longrightarrow>
           snd (delete_all_rows keyspace_tables scan table_name page_size concurrency)
             = Some (length (concat (pages_of rs))))"
proof -
  let ?W = "delete_worker env retry_delay max_retries table_name"
  let ?ok = "delete_succeeds env retry_delay max_retries table_name"
  let ?tasks = "table_tasks (nat batch_size) table_name rs"
  let ?deleted = "fst (snd (process_table env tables_metadata page_size batch_size concurrency retry_delay
                     max_retries table_name))"
  have n: "0 < nat batch_size" using assms(1) by simp
  have d: "?deleted = sum_list (map (\<lambda>task. deleted_rows (fst (?W task))) ?tasks)"
    using process_table_result[OF assms] by blast
  have 1: "?deleted = sum_list (map (\<lambda>task. if ?ok task then length (fst task) else 0) ?tasks)"
    unfolding d by (simp only: delete_worker_deleted)
  have rows: "sum_list (map (\<lambda>task. length (fst task)) ?tasks) = length (concat (pages_of rs))"
    by (rule table_tasks_rows[OF n])
  have "sum_list (map (\<lambda>task. if ?ok task then length (fst task) else 0) ?tasks)
        \<le> sum_list (map (\<lambda>task. length (fst task)) ?tasks)"
    by (rule sum_list_mono) simp
  then have 2: "?deleted \<le> length (concat (pages_of rs))"
    using 1 rows by simp
  have 3: "(\<forall>task \<in> set ?tasks. ?ok task) \<longrightarrow> ?deleted = length (concat (pages_of rs))"
  proof
    assume a: "\<forall>task \<in> set ?tasks. ?ok task"
    have "sum_list (map (\<lambda>task. if ?ok task then length (fst task) else 0) ?tasks)
          = sum_list (map (\<lambda>task. length (fst task)) ?tasks)"
      by (rule arg_cong[where f = sum_list], rule map_cong) (use a in simp_all)
    then show "?deleted = length (concat (pages_of rs))" unfolding 1 rows .
  qed
  have 4: "pages_of rs = [] \<longrightarrow> ?deleted = 0"
    using 2 by auto
  have 5: "keyspace_tables table_name = Some table_metadata
            \<and> partition_key table_metadata @ clustering_key table_metadata \<noteq> []
            \<and> scan table_name page_size = Inr rs \<longrightarrow>
           snd (delete_all_rows keyspace_tables scan table_name page_size concurrency)
             = Some (length (concat (pages_of rs)))"
    using delete_all_rows_count[OF assms(2)] by blast
  show ?thesis using 1 rows 2 3 4 5 by (intro conjI)
qed

theorem deleted_count_of_a_table_witness:
  "fst (snd (process_table (one_table_env [1, 2, 3] delete_ok)
        [(''t'', \<lparr>partition_key = [''id''], clustering_key = []\<rparr>)] 2 2 10 (1 / 2) 3 ''t'')) = 3
   \<and> length (concat (pages_of (scan_keys 2 [1, 2, 3 :: nat]))) = 3
   \<and> snd (delete_all_rows (tables (one_table_env [1, 2, 3] delete_ok))
             (select_keys (one_table_env [1, 2, 3] delete_ok)) ''t'' 2 10) = Some 3"
proof -
  let ?env = "one_table_env [1, 2, 3] delete_ok"
  let ?md = "[(''t'', \<lparr>partition_key = [''id''], clustering_key = []\<rparr>)]"
  let ?rs = "scan_keys 2 [1, 2, 3 :: nat]"
  have h1: "(0::int) < 2" and h2: "(0::int) < 10" by simp_all
  have h3: "\<forall>futures. mset (batches_completed ?env futures) = mset futures"
    by (simp add: one_table_env_fields)
  have h4: "''t'' \<in> fst ` set ?md" by simp
  have h5: "select_keys ?env ''t'' 2 = Inr ?rs" by (simp add: one_table_env_fields)
  have ok: "\<forall>task \<in> set (table_tasks (nat 2) ''t'' ?rs). delete_succeeds ?env (1 / 2) 3 ''t'' task"
    by (simp add: delete_succeeds_first_attempt one_table_env_fields delete_ok_def)
  have md: "tables ?env ''t'' = Some \<lparr>partition_key = [''id''], clustering_key = []\<rparr>
            \<and> partition_key \<lparr>partition_key = [''id''], clustering_key = []\<rparr>
                @ clustering_key \<lparr>partition_key = [''id''], clustering_key = []\<rparr> \<noteq> []
            \<and> select_keys ?env ''t'' 2 = Inr ?rs"
    by (simp add: one_table_env_fields)
  have len: "length (concat (pages_of ?rs)) = 3"
    by (simp add: pages_of_scan_keys concat_batches_of)
  note t = deleted_count_of_a_table[OF h1 h2 h3 h4 h5, of "1 / 2" 3 "tables ?env"
             "\<lparr>partition_key = [''id''], clustering_key = []\<rparr>" "select_keys ?env"]
  note t4 = t[THEN conjunct2, THEN conjunct2, THEN conjunct2, THEN conjunct1]
  note t6 = t[THEN conjunct2, THEN conjunct2, THEN conjunct2, THEN conjunct2, THEN conjunct2]
  from t4 ok have a: "fst (snd (process_table ?env ?md 2 2 10 (1 / 2) 3 ''t'')) = length (concat (pages_of ?rs))"
    by (rule mp)
  from t6 md have b: "snd (delete_all_rows (tables ?env) (select_keys ?env) ''t'' 2 10)
                     = Some (length (concat (pages_of ?rs)))"
    by (rule mp)
  show ?thesis using a b len by simp
qed

text \<open>
  The count is not always the number of rows seen: a table with one row whose grouped
  delete fails on each of 3 attempts reports 0 deleted rows, with 1 row seen on its page.
\<close>

theorem failed_batch_is_not_counted_as_deleted:
  "fst (snd (process_table (one_table_env [7] delete_failing)
        [(''t'', \<lparr>partition_key = [''id''], clustering_key = []\<rparr>)] 1000 100 10 (1 / 2) 3 ''t'')) = 0
   \<and> length (concat (pages_of (scan_keys 1000 [7 :: nat]))) = 1"
proof -
  let ?env = "one_table_env [7] delete_failing"
  let ?md = "[(''t'', \<lparr>partition_key = [''id''], clustering_key = []\<rparr>)]"
  let ?rs = "scan_keys 1000 [7 :: nat]"
  have h3: "\<forall>futures. mset (batches_completed ?env futures) = mset futures"
    by (simp add: one_table_env_fields)
  have h5: "select_keys ?env ''t'' 1000 = Inr ?rs" by (simp add: one_table_env_fields)
  have fails: "\<not> delete_succeeds ?env (1 / 2) 3 ''t'' task" for task
    by (rule delete_fails_when_run_raises) (simp add: one_table_env_fields delete_failing_def)
  have "fst (snd (process_table ?env ?md 1000 100 10 (1 / 2) 3 ''t''))
        = sum_list (map (\<lambda>task. deleted_rows (fst (delete_worker ?env (1 / 2) 3 ''t'' task)))
                        (table_tasks (nat 100) ''t'' ?rs))"
    using process_table_result[of 100 10 ?env "''t''" ?md 1000 ?rs "1 / 2" 3] h3 h5 by simp
  then have a: "fst (snd (process_table ?env ?md 1000 100 10 (1 / 2) 3 ''t'')) = 0"
    by (simp add: delete_worker_deleted fails)
  have b: "length (concat (pages_of ?rs)) = 1"
    by (simp add: pages_of_scan_keys concat_batches_of)
  show ?thesis using a b by simp
qed

text \<open>
  C5. Let one of the tables given to \<^verbatim>\<open>delete_all_rows_batch_multiple\<close> be absent from the
  keyspace. When the concurrency is positive and preparing the DELETE of the present tables
  raises nothing, the call returns: a warning was logged for the absent table, its deleted
  count is 0, the result has an entry for every table given, and the entry of each table
  is the count \<^verbatim>\<open>process_table\<close> returns for it, the tables whose metadata it knows being
  the present ones.
\<close>

theorem missing_table_is_skipped:
  assumes "table_name \<in> set table_names" "tables env table_name = None"
    and "0 < concurrency"
    and "\<forall>t \<in> set table_names. tables env t \<noteq> None \<longrightarrow> prepare env t = None"
    and "\<forall>finished. mset (tables_completed env finished) = mset finished"
  shows "\<exists>warnings results tables_metadata.
           delete_all_rows_batch_multiple env table_names page_size batch_size concurrency
               retry_delay max_retries
             = Inr (warnings, results)
           \<and> LogWarning table_name \<in> set warnings
           \<and> map_of results table_name = Some 0
           \<and> fst ` set results = set table_names
           \<and> fst ` set tables_metadata = {t \<in> set table_names. tables env t \<noteq> None}
           \<and> (\<forall>t \<in> set table_names.
                 map_of results t
                   = Some (fst (snd (process_table env tables_metadata page_size batch_size concurrency
                                       retry_delay max_retries t))))"
proof -
  let ?warnings = "map LogWarning (filter (\<lambda>t. tables env t = None) table_names)"
  obtain md where md: "prepare_tables env table_names ([], []) = Inr (?warnings, md)"
    "fst ` set md = {t \<in> set table_names. tables env t \<noteq> None}"
    using prepare_tables_result[OF assms(4), of "[]" "[]"] by auto
  let ?P = "process_table env md page_size batch_size concurrency retry_delay max_retries"
  let ?finished = "tables_completed env (map ?P table_names)"
  let ?results = "foldl (\<lambda>results (table_name, deleted_count, effs).
                          dict_set table_name deleted_count results) [] ?finished"
  have ne: "table_names \<noteq> []" using assms(1) by auto
  then have pool: "thread_pool (min (int (length table_names)) concurrency) = None"
    using assms(3) by (cases table_names) (simp_all add: thread_pool_def min_def)
  have call: "delete_all_rows_batch_multiple env table_names page_size batch_size concurrency
               retry_delay max_retries = Inr (?warnings, ?results)"
    using md(1) pool by (simp add: delete_all_rows_batch_multiple_def)
  have "mset ?finished = mset (map ?P table_names)"
    using assms(5) by blast
  then have fin: "set ?finished = set (map ?P table_names)"
    by (rule mset_eq_setD)
  then have each: "\<forall>x \<in> set ?finished. x = ?P (fst x)"
    by (auto simp: fst_process_table)
  have keys: "fst ` set ?finished = set table_names"
    unfolding fin by (auto simp: fst_process_table image_iff)
  note cr = collect_results[OF each, of "[]"]
  have res: "\<forall>t \<in> set table_names. map_of ?results t = Some (fst (snd (?P t)))"
    using cr keys by simp
  have rk: "fst ` set ?results = set table_names"
    using cr keys by simp
  have "table_name \<notin> fst ` set md" using md(2) assms(2) by simp
  then have "?P table_name = (table_name, 0, [])" by (rule process_table_missing)
  then have zero: "map_of ?results table_name = Some 0" using res assms(1) by simp
  have warn: "LogWarning table_name \<in> set ?warnings" using assms(1,2) by simp
  show ?thesis
    using call warn zero rk md(2) res
    by (intro exI[of _ ?warnings] exI[of _ ?results] exI[of _ md] conjI)
qed


theorem missing_table_is_skipped_witness:
  "\<exists>warnings results.
     delete_all_rows_batch_multiple (one_table_env [1, 2, 3] delete_ok) [''missing'', ''t'']
         2 2 10 (1 / 2) 3
       = Inr (warnings, results)
     \<and> LogWarning ''missing'' \<in> set warnings
     \<and> map_of results ''missing'' = Some 0
     \<and> map_of results ''t'' = Some 3"
proof -
  let ?env = "one_table_env [1, 2, 3] delete_ok"
  have h1: "''missing'' \<in> set [''missing'', ''t'']" by simp
  have h2: "tables ?env ''missing'' = None" by (simp add: one_table_env_def)
  have h3: "(0::int) < 10" by simp
  have h4: "\<forall>t \<in> set [''missing'', ''t'']. tables ?env t \<noteq> None \<longrightarrow> prepare ?env t = None"
    by (simp add: one_table_env_fields)
  have h5: "\<forall>finished. mset (tables_completed ?env finished) = mset finished"
    by (simp add: one_table_env_fields)
  note t = missing_table_is_skipped[OF h1 h2 h3 h4 h5, of 2 2 "1 / 2" 3]
  from t obtain warnings where "\<exists>results md.
    delete_all_rows_batch_multiple ?env [''missing'', ''t''] 2 2 10 (1 / 2) 3 = Inr (warnings, results)
    \<and> LogWarning ''missing'' \<in> set warnings
    \<and> map_of results ''missing'' = Some 0
    \<and> fst ` set results = set [''missing'', ''t'']
    \<and> fst ` set md = {t \<in> set [''missing'', ''t'']. tables ?env t \<noteq> None}
    \<and> (\<forall>t \<in> set [''missing'', ''t''].
        map_of results t = Some (fst (snd (process_table ?env md 2 2 10 (1 / 2) 3 t))))" ..
  then obtain results where "\<exists>md.
    delete_all_rows_batch_multiple ?env [''missing'', ''t''] 2 2 10 (1 / 2) 3 = Inr (warnings, results)
    \<and> LogWarning ''missing'' \<in> set warnings
    \<and> map_of results ''missing'' = Some 0
    \<and> fst ` set results = set [''missing'', ''t'']
    \<and> fst ` set md = {t \<in> set [''missing'', ''t'']. tables ?env t \<noteq> None}
    \<and> (\<forall>t \<in> set [''missing'', ''t''].
        map_of results t = Some (fst (snd (process_table ?env md 2 2 10 (1 / 2) 3 t))))" ..
  then obtain md where all:
    "delete_all_rows_batch_multiple ?env [''missing'', ''t''] 2 2 10 (1 / 2) 3 = Inr (warnings, results)
    \<and> LogWarning ''missing'' \<in> set warnings
    \<and> map_of results ''missing'' = Some 0
    \<and> fst ` set results = set [''missing'', ''t'']
    \<and> fst ` set md = {t \<in> set [''missing'', ''t'']. tables ?env t \<noteq> None}
    \<and> (\<forall>t \<in> set [''missing'', ''t''].
        map_of results t = Some (fst (snd (process_table ?env md 2 2 10 (1 / 2) 3 t))))" ..
  note r1 = all[THEN conjunct1]
  note r2 = all[THEN conjunct2, THEN conjunct1]
  note r3 = all[THEN conjunct2, THEN conjunct2, THEN conjunct1]
  note r4 = all[THEN conjunct2, THEN conjunct2, THEN conjunct2, THEN conjunct2, THEN conjunct1]
  note r5 = all[THEN conjunct2, THEN conjunct2, THEN conjunct2, THEN conjunct2, THEN conjunct2]
  have "tables ?env ''t'' \<noteq> None" by (simp add: one_table_env_fields)
  then have "''t'' \<in> {t \<in> set [''missing'', ''t'']. tables ?env t \<noteq> None}" by simp
  then have "''t'' \<in> fst ` set md" by (simp only: r4)
  then have "fst (snd (process_table ?env md 2 2 10 (1 / 2) 3 ''t''))
             = length (concat (pages_of (scan_keys 2 [1, 2, 3 :: nat])))"
    by (intro process_table_all_ok) (simp_all add: one_table_env_fields delete_ok_def)
  also have "\<dots> = 3" by (simp add: pages_of_scan_keys concat_batches_of)
  finally have c: "fst (snd (process_table ?env md 2 2 10 (1 / 2) 3 ''t'')) = 3" .
  have "map_of results ''t'' = Some (fst (snd (process_table ?env md 2 2 10 (1 / 2) 3 ''t'')))"
    using r5 by simp
  then have "map_of results ''t'' = Some 3" by (simp only: c)
  then show ?thesis using r1 r2 r3 by (intro exI[of _ warnings] exI[of _ results] conjI)
qed

text \<open>
  C1, as the code has it. For a non-empty list of records \<^verbatim>\<open>batch_insert_dicts_to_cassandra\<close>
  raises exactly when \<^verbatim>\<open>batch_size\<close> is 0 or \<^verbatim>\<open>concurrency\<close> is not positive. Otherwise it
  returns a report in which \<^verbatim>\<open>total_successful\<close> is at most \<^verbatim>\<open>total_records\<close> and
  \<^verbatim>\<open>success_rate\<close> is \<^verbatim>\<open>total_successful / total_records * 100\<close>, a percentage between 0 and
  100, and \<^verbatim>\<open>records_per_second\<close> is \<^verbatim>\<open>total_successful / execution_time\<close> for a positive
  elapsed time and 0 otherwise. The expression of the rate is guarded: for a count of 0 it
  gives 0, as the expression of the throughput does for an elapsed time that is not
  positive, so neither divides by zero.
\<close>

theorem success_rate_is_a_percentage:
  assumes "records \<noteq> []" "\<forall>futures. mset (as_completed futures) = mset futures"
  shows "(case batch_insert_dicts_to_cassandra sleep session as_completed execution_time
                records batch_size concurrency retry_delay max_retries of
            Inl e \<Rightarrow> batch_size = 0 \<or> concurrency \<le> 0
          | Inr report \<Rightarrow>
              batch_size \<noteq> 0 \<and> 0 < concurrency \<and>
              (\<exists>n. n \<le> length records
                 \<and> map_of report ''total_records'' = Some (IntV (int (length records)))
                 \<and> map_of report ''total_successful'' = Some (IntV (int n))
                 \<and> map_of report ''success_rate''
                     = Some (FloatV (real n / real (length records) * 100))
                 \<and> 0 \<le> real n / real (length records) * 100
                 \<and> real n / real (length records) * 100 \<le> 100
                 \<and> map_of report ''records_per_second''
                     = Some (if 0 < execution_time then FloatV (real n / execution_time) else IntV 0)))
       \<and> map_of (final_stats 0 table_stats elapsed) ''success_rate'' = Some (IntV 0)
       \<and> (elapsed \<le> 0 \<longrightarrow>
            map_of (final_stats total_records table_stats elapsed) ''records_per_second'' = Some (IntV 0))"
proof -
  let ?stats = "foldl record_result []
                  (as_completed
                     (map (\<lambda>task. (task, insert_worker sleep session retry_delay max_retries task))
                          (if batch_size < 0 then [] else all_tasks_of (nat batch_size) records)))"
  let ?n = "total_successful ?stats"
  have pos: "0 < length records" using assms(1) by simp
  have 1: "case batch_insert_dicts_to_cassandra sleep session as_completed execution_time
                records batch_size concurrency retry_delay max_retries of
            Inl e \<Rightarrow> batch_size = 0 \<or> concurrency \<le> 0
          | Inr report \<Rightarrow>
              batch_size \<noteq> 0 \<and> 0 < concurrency \<and>
              (\<exists>n. n \<le> length records
                 \<and> map_of report ''total_records'' = Some (IntV (int (length records)))
                 \<and> map_of report ''total_successful'' = Some (IntV (int n))
                 \<and> map_of report ''success_rate''
                     = Some (FloatV (real n / real (length records) * 100))
                 \<and> 0 \<le> real n / real (length records) * 100
                 \<and> real n / real (length records) * 100 \<le> 100
                 \<and> map_of report ''records_per_second''
                     = Some (if 0 < execution_time then FloatV (real n / execution_time) else IntV 0))"
  proof (cases "batch_size = 0 \<or> concurrency \<le> 0")
    case True
    then show ?thesis unfolding batch_insert_result[OF assms(1)] by auto
  next
    case False
    then have bs: "batch_size \<noteq> 0" and c: "0 < concurrency" by simp_all
    have le: "?n \<le> length records" by (rule total_successful_le[OF assms(2) bs])
    note pb = percentage_bounds[OF le pos]
    have call: "batch_insert_dicts_to_cassandra sleep session as_completed execution_time
                records batch_size concurrency retry_delay max_retries
               = Inr (final_stats (length records) ?stats execution_time)"
      unfolding batch_insert_result[OF assms(1)] using bs c by simp
    have "\<exists>n. n \<le> length records
                 \<and> map_of (final_stats (length records) ?stats execution_time) ''total_records''
                     = Some (IntV (int (length records)))
                 \<and> map_of (final_stats (length records) ?stats execution_time) ''total_successful''
                     = Some (IntV (int n))
                 \<and> map_of (final_stats (length records) ?stats execution_time) ''success_rate''
                     = Some (FloatV (real n / real (length records) * 100))
                 \<and> 0 \<le> real n / real (length records) * 100
                 \<and> real n / real (length records) * 100 \<le> 100
                 \<and> map_of (final_stats (length records) ?stats execution_time) ''records_per_second''
                     = Some (if 0 < execution_time then FloatV (real n / execution_time) else IntV 0)"
      using le pb pos by (intro exI[of _ ?n]) (simp add: final_stats_lookup)
    then show ?thesis unfolding call using bs c by simp
  qed
  have 2: "map_of (final_stats 0 table_stats elapsed) ''success_rate'' = Some (IntV 0)"
    by (simp add: final_stats_lookup)
  have 3: "elapsed \<le> 0 \<longrightarrow>
            map_of (final_stats total_records table_stats elapsed) ''records_per_second'' = Some (IntV 0)"
    by (simp add: final_stats_lookup)
  show ?thesis using 1 2 3 by blast
qed

theorem success_rate_is_a_percentage_witness:
  "\<exists>report n.
     batch_insert_dicts_to_cassandra sleep_returns (insert_ok :: (int, unit) insert_session) submission_order 2
         [(''t'', [(''a'', 1)]), (''t'', [(''a'', 2)])] 100 10 (1 / 2) 3
       = Inr report
     \<and> n \<le> 2
     \<and> map_of report ''total_successful'' = Some (IntV (int n))
     \<and> map_of report ''success_rate'' = Some (FloatV (real n / real 2 * 100))
     \<and> real n / real 2 * 100 \<le> 100"
proof -
  let ?records = "[(''t'', [(''a'', 1 :: int)]), (''t'', [(''a'', 2)])]"
  let ?call = "batch_insert_dicts_to_cassandra sleep_returns (insert_ok :: (int, unit) insert_session)
                 submission_order 2 ?records 100 10 (1 / 2) 3"
  have h1: "?records \<noteq> []" by simp
  have h2: "\<forall>futures. mset (submission_order futures) = mset futures"
    by (simp add: submission_order_perm)
  note t = success_rate_is_a_percentage[OF h1 h2, where sleep = sleep_returns and session = "insert_ok :: (int, unit) insert_session" and execution_time = 2
             and batch_size = 100 and concurrency = 10 and retry_delay = "1 / 2" and max_retries = 3,
             THEN conjunct1]
  show ?thesis
  proof (cases ?call)
    case (Inl e)
    then show ?thesis using t by simp
  next
    case (Inr report)
    then obtain n where "n \<le> length ?records"
      "map_of report ''total_successful'' = Some (IntV (int n))"
      "map_of report ''success_rate'' = Some (FloatV (real n / real (length ?records) * 100))"
      "real n / real (length ?records) * 100 \<le> 100"
      using t by auto
    then show ?thesis using Inr by (intro exI[of _ report] exI[of _ n]) simp
  qed
qed

text \<open>
  The rate is a percentage, not a fraction: one record, inserted at the first attempt,
  gives the rate 100.
\<close>

theorem one_successful_record_has_rate_100:
  "batch_insert_dicts_to_cassandra sleep_returns (insert_ok :: (int, unit) insert_session) submission_order 2
     [(''t'', [(''a'', 1)])] 100 10 (1 / 2) 3
   = Inr [(''total_records'', IntV 1),
          (''total_successful'', IntV 1),
          (''total_failed'', IntV 0),
          (''success_rate'', FloatV 100),
          (''execution_time'', FloatV 2),
          (''records_per_second'', FloatV (1 / 2)),
          (''tables'', TablesV [(''t'', \<lparr>successful = 1, failed = 0, batches = 1, errors = []\<rparr>)])]"
  by (simp add: batch_insert_dicts_to_cassandra_def group_by_table_def group_by_def list_append_def
        chunks_def range_step_def slice_def thread_pool_def submit_all_def submission_order_def
        execute_table_batch_def upt_conv_Cons group_by_columns_def columns_key_def
        values_of_def insert_ok_def record_result_def add_result_def empty_stat_def final_stats_def
        total_successful_def total_failed_def)

text \<open>
  C10. For the empty list of records \<^verbatim>\<open>batch_insert_dicts_to_cassandra\<close> returns, without
  raising, the dict with the three keys \<^verbatim>\<open>total_records\<close> (0), \<^verbatim>\<open>tables\<close> (empty) and
  \<^verbatim>\<open>execution_time\<close> (0). It has none of the keys \<^verbatim>\<open>total_successful\<close>, \<^verbatim>\<open>total_failed\<close>,
  \<^verbatim>\<open>success_rate\<close> and \<^verbatim>\<open>records_per_second\<close>, which every report returned for a non-empty
  list has, among its seven keys.
\<close>

theorem empty_records_report:
  "batch_insert_dicts_to_cassandra sleep session as_completed execution_time
       [] batch_size concurrency retry_delay max_retries
     = Inr [(''total_records'', IntV 0), (''tables'', TablesV []), (''execution_time'', IntV 0)]
   \<and> {''total_successful'', ''total_failed'', ''success_rate'', ''records_per_second''}
       \<inter> fst ` set [(''total_records'', IntV 0), (''tables'', TablesV []), (''execution_time'', IntV 0)]
     = {}
   \<and> (records \<noteq> []
        \<and> batch_insert_dicts_to_cassandra sleep session as_completed execution_time
              records batch_size concurrency retry_delay max_retries = Inr report \<longrightarrow>
        map fst report
          = [''total_records'', ''total_successful'', ''total_failed'', ''success_rate'',
             ''execution_time'', ''records_per_second'', ''tables''])"
proof -
  have 1: "batch_insert_dicts_to_cassandra sleep session as_completed execution_time
       [] batch_size concurrency retry_delay max_retries
     = Inr [(''total_records'', IntV 0), (''tables'', TablesV []), (''execution_time'', IntV 0)]"
    by (simp add: batch_insert_dicts_to_cassandra_def)
  have 2: "{''total_successful'', ''total_failed'', ''success_rate'', ''records_per_second''}
       \<inter> fst ` set [(''total_records'', IntV 0), (''tables'', TablesV []), (''execution_time'', IntV 0)]
     = {}"
    by simp
  have 3: "records \<noteq> []
        \<and> batch_insert_dicts_to_cassandra sleep session as_completed execution_time
              records batch_size concurrency retry_delay max_retries = Inr report \<longrightarrow>
        map fst report
          = [''total_records'', ''total_successful'', ''total_failed'', ''success_rate'',
             ''execution_time'', ''records_per_second'', ''tables'']"
  proof
    assume h: "records \<noteq> []
        \<and> batch_insert_dicts_to_cassandra sleep session as_completed execution_time
              records batch_size concurrency retry_delay max_retries = Inr report"
    then have "\<exists>table_stats. report = final_stats (length records) table_stats execution_time"
      using batch_insert_result[of records sleep session as_completed execution_time batch_size concurrency
              retry_delay max_retries]
      by (auto split: if_splits)
    then show "map fst report
          = [''total_records'', ''total_successful'', ''total_failed'', ''success_rate'',
             ''execution_time'', ''records_per_second'', ''tables'']"
      by (auto simp: final_stats_lookup)
  qed
  show ?thesis using 1 2 3 by (intro conjI)
qed

theorem empty_records_report_witness:
  "\<exists>report.
     batch_insert_dicts_to_cassandra sleep_returns (insert_ok :: (int, unit) insert_session) submission_order 2
         [(''t'', [(''a'', 1)])] 100 10 (1 / 2) 3
       = Inr report
     \<and> map fst report
          = [''total_records'', ''total_successful'', ''total_failed'', ''success_rate'',
             ''execution_time'', ''records_per_second'', ''tables'']"
proof -
  let ?records = "[(''t'', [(''a'', 1 :: int)])]"
  let ?call = "batch_insert_dicts_to_cassandra sleep_returns (insert_ok :: (int, unit) insert_session)
                 submission_order 2 ?records 100 10 (1 / 2) 3"
  have ne: "?records \<noteq> []" by simp
  obtain report where r: "?call = Inr report"
    unfolding batch_insert_result[OF ne] by simp
  note t = empty_records_report[where records = ?records and sleep = sleep_returns and session = "insert_ok :: (int, unit) insert_session"
      and as_completed = submission_order and execution_time = 2 and batch_size = 100
      and concurrency = 10 and retry_delay = "1 / 2" and max_retries = 3 and report = report,
      THEN conjunct2, THEN conjunct2]
  have "map fst report
          = [''total_records'', ''total_successful'', ''total_failed'', ''success_rate'',
             ''execution_time'', ''records_per_second'', ''tables'']"
    by (rule t[rule_format]) (use ne r in simp)
  then show ?thesis using r by (intro exI[of _ report] conjI)
qed



text \<open>
  C9, as the code has it. An empty list of tables makes \<^verbatim>\<open>delete_all_rows_batch_multiple\<close>
  raise ValueError before any table is processed (the worker pool is asked for 0 workers),
  and so does a concurrency that is not positive once the DELETEs are prepared; with
  records to insert, a zero \<^verbatim>\<open>batch_size\<close> makes \<^verbatim>\<open>batch_insert_dicts_to_cassandra\<close> raise the
  ValueError of \<^verbatim>\<open>range\<close>, and with another \<^verbatim>\<open>batch_size\<close> a concurrency that is not positive
  makes it raise the ValueError of the worker pool. In each case no report is produced.
  An empty list of records is not such a case: the insert returns its three-key report
  and raises nothing.
\<close>

theorem invalid_parameters:
  "delete_all_rows_batch_multiple env [] page_size batch_size concurrency retry_delay max_retries
     = Inl ''ValueError: max_workers must be greater than 0''
   \<and> batch_insert_dicts_to_cassandra sleep session as_completed execution_time
         [] batch_size concurrency retry_delay max_retries
     = Inr [(''total_records'', IntV 0), (''tables'', TablesV []), (''execution_time'', IntV 0)]
   \<and> (records \<noteq> [] \<and> batch_size = 0 \<longrightarrow>
        batch_insert_dicts_to_cassandra sleep session as_completed execution_time
            records batch_size concurrency retry_delay max_retries
          = Inl ''ValueError: range() arg 3 must not be zero'')
   \<and> (records \<noteq> [] \<and> batch_size \<noteq> 0 \<and> concurrency \<le> 0 \<longrightarrow>
        batch_insert_dicts_to_cassandra sleep session as_completed execution_time
            records batch_size concurrency retry_delay max_retries
          = Inl ''ValueError: max_workers must be greater than 0'')
   \<and> (table_names \<noteq> [] \<and> concurrency \<le> 0
        \<and> (\<forall>t \<in> set table_names. tables env t \<noteq> None \<longrightarrow> prepare env t = None) \<longrightarrow>
        delete_all_rows_batch_multiple env table_names page_size batch_size concurrency retry_delay max_retries
          = Inl ''ValueError: max_workers must be greater than 0'')"
proof -
  have 1: "delete_all_rows_batch_multiple env [] page_size batch_size concurrency retry_delay max_retries
     = Inl ''ValueError: max_workers must be greater than 0''"
    by (simp add: delete_all_rows_batch_multiple_def thread_pool_def)
  have 2: "batch_insert_dicts_to_cassandra sleep session as_completed execution_time
         [] batch_size concurrency retry_delay max_retries
     = Inr [(''total_records'', IntV 0), (''tables'', TablesV []), (''execution_time'', IntV 0)]"
    by (simp add: batch_insert_dicts_to_cassandra_def)
  have 3: "records \<noteq> [] \<and> batch_size = 0 \<longrightarrow>
        batch_insert_dicts_to_cassandra sleep session as_completed execution_time
            records batch_size concurrency retry_delay max_retries
          = Inl ''ValueError: range() arg 3 must not be zero''"
    using batch_insert_result[of records sleep session as_completed execution_time batch_size concurrency
              retry_delay max_retries]
    by auto
  have 4: "records \<noteq> [] \<and> batch_size \<noteq> 0 \<and> concurrency \<le> 0 \<longrightarrow>
        batch_insert_dicts_to_cassandra sleep session as_completed execution_time
            records batch_size concurrency retry_delay max_retries
          = Inl ''ValueError: max_workers must be greater than 0''"
    using batch_insert_result[of records sleep session as_completed execution_time batch_size concurrency
              retry_delay max_retries]
    by simp
  have 5: "table_names \<noteq> [] \<and> concurrency \<le> 0
        \<and> (\<forall>t \<in> set table_names. tables env t \<noteq> None \<longrightarrow> prepare env t = None) \<longrightarrow>
        delete_all_rows_batch_multiple env table_names page_size batch_size concurrency retry_delay max_retries
          = Inl ''ValueError: max_workers must be greater than 0''"
  proof
    assume h: "table_names \<noteq> [] \<and> concurrency \<le> 0
        \<and> (\<forall>t \<in> set table_names. tables env t \<noteq> None \<longrightarrow> prepare env t = None)"
    then obtain md where md: "prepare_tables env table_names ([], [])
        = Inr (map LogWarning (filter (\<lambda>t. tables env t = None) table_names), md)"
      using prepare_tables_result[of table_names env "[]" "[]"] by auto
    have "min (int (length table_names)) concurrency \<le> 0"
      using h by (simp add: min_le_iff_disj)
    then have "thread_pool (min (int (length table_names)) concurrency)
          = Some ''ValueError: max_workers must be greater than 0''"
      by (simp only: thread_pool_def if_True)
    then show "delete_all_rows_batch_multiple env table_names page_size batch_size concurrency
                 retry_delay max_retries
               = Inl ''ValueError: max_workers must be greater than 0''"
      using md by (simp add: delete_all_rows_batch_multiple_def)
  qed
  show ?thesis using 1 2 3 4 5 by (intro conjI)
qed

theorem invalid_parameters_witness:
  "batch_insert_dicts_to_cassandra sleep_returns (insert_ok :: (int, unit) insert_session) submission_order 2
       [(''t'', [(''a'', 1)])] 0 10 (1 / 2) 3
     = Inl ''ValueError: range() arg 3 must not be zero''
   \<and> batch_insert_dicts_to_cassandra sleep_returns (insert_ok :: (int, unit) insert_session) submission_order 2
       [(''t'', [(''a'', 1)])] 100 0 (1 / 2) 3
     = Inl ''ValueError: max_workers must be greater than 0''
   \<and> delete_all_rows_batch_multiple (one_table_env [1, 2, 3] delete_ok) [''t''] 2 2 0 (1 / 2) 3
       = Inl ''ValueError: max_workers must be greater than 0''"
proof -
  let ?records = "[(''t'', [(''a'', 1 :: int)])]"
  let ?env = "one_table_env [1, 2, 3] delete_ok"
  note t = invalid_parameters[where records = ?records and sleep = sleep_returns
      and session = "insert_ok :: (int, unit) insert_session"
      and as_completed = submission_order and execution_time = 2 and batch_size = 0
      and concurrency = 10 and retry_delay = "1 / 2" and max_retries = 3,
      THEN conjunct2, THEN conjunct2, THEN conjunct1]
  have a: "batch_insert_dicts_to_cassandra sleep_returns (insert_ok :: (int, unit) insert_session)
             submission_order 2 ?records 0 10 (1 / 2) 3
           = Inl ''ValueError: range() arg 3 must not be zero''"
    using t by simp
  note v = invalid_parameters[where records = ?records and sleep = sleep_returns
      and session = "insert_ok :: (int, unit) insert_session"
      and as_completed = submission_order and execution_time = 2 and batch_size = 100
      and concurrency = 0 and retry_delay = "1 / 2" and max_retries = 3,
      THEN conjunct2, THEN conjunct2, THEN conjunct2, THEN conjunct1]
  have b: "batch_insert_dicts_to_cassandra sleep_returns (insert_ok :: (int, unit) insert_session)
             submission_order 2 ?records 100 0 (1 / 2) 3
           = Inl ''ValueError: max_workers must be greater than 0''"
    using v by simp
  note u = invalid_parameters[where env = ?env and table_names = "[''t'']" and concurrency = 0
      and page_size = 2 and batch_size = 2 and retry_delay = "1 / 2" and max_retries = 3,
      THEN conjunct2, THEN conjunct2, THEN conjunct2, THEN conjunct2]
  have c: "delete_all_rows_batch_multiple ?env [''t''] 2 2 0 (1 / 2) 3
       = Inl ''ValueError: max_workers must be greater than 0''"
    using u by (simp add: one_table_env_fields)
  show ?thesis using a b c by (intro conjI)
qed

text \<open>An empty collection of records raises no error: the call returns a report.\<close>

theorem empty_records_do_not_raise:
  "batch_insert_dicts_to_cassandra sleep_returns (insert_ok :: (int, unit) insert_session) submission_order 0
       [] 100 10 (1 / 2) 3
   = Inr [(''total_records'', IntV 0), (''tables'', TablesV []), (''execution_time'', IntV 0)]"
  by (simp add: batch_insert_dicts_to_cassandra_def)

text \<open>
  C4. A batch that exhausts its retries is to add its whole length to the failed count and
  to leave its last error in the error list of its table, while the run goes on to its
  final report. The run does go on: the call returns its report whatever the driver does,
  and for a positive \<^verbatim>\<open>max_retries\<close> a batch whose attempts all raise is counted and recorded
  that way (\<open>failing_batch_is_recorded\<close>). With \<^verbatim>\<open>max_retries = 0\<close> a batch has exhausted its
  retries before a first attempt; the loop of the insert worker has no iteration and
  nothing after it, so the worker returns 0 failed and no error. Whatever the driver and
  the sleep do, the report of a run over one record then counts the record neither as
  successful nor as failed, and the error list of its table is empty.
\<close>

theorem exhausted_batch_without_attempts_is_not_failed:
  "batch_insert_dicts_to_cassandra sleep session submission_order 2
     [(''t'', [(''a'', 1 :: int)])] 100 10 (1 / 2) 0
   = Inr [(''total_records'', IntV 1),
          (''total_successful'', IntV 0),
          (''total_failed'', IntV 0),
          (''success_rate'', FloatV 0),
          (''execution_time'', FloatV 2),
          (''records_per_second'', FloatV 0),
          (''tables'', TablesV [(''t'', \<lparr>successful = 0, failed = 0, batches = 1, errors = []\<rparr>)])]"
  by (simp add: batch_insert_dicts_to_cassandra_def group_by_table_def group_by_def list_append_def
        chunks_def range_step_def slice_def thread_pool_def submit_all_def submission_order_def
        execute_table_batch_def record_result_def add_result_def empty_stat_def final_stats_def
        total_successful_def total_failed_def)

end
